theory Spec2Isabelle
  imports Complex_Main
begin

section \<open>Pose-to-animation conversion of smplx2fbx.py\<close>

text \<open>
  A shallow embedding of the conversion pipeline of \<^verbatim>\<open>src/smplx2fbx.py\<close>:
  \<^verbatim>\<open>Rodrigues\<close>, \<^verbatim>\<open>ToQuaternion\<close>, \<^verbatim>\<open>get_input_data\<close>, \<^verbatim>\<open>process_pose\<close> and
  \<^verbatim>\<open>process_poses\<close>.

  Conventions of the embedding:
  \<^item> numpy and mathutils floats are real numbers: rounding, overflow and the non-finite
    values of IEEE arithmetic are not represented;
  \<^item> Python integers are \<open>int\<close>;
  \<^item> a rotation-vector array is either one vector (numpy shape \<open>(3,)\<close>) or a list of rows
    (shape \<open>(N, 3)\<close>); other shapes are outside the embedding. The \<^verbatim>\<open>assert\<close> that opens
    \<^verbatim>\<open>ToQuaternion\<close> tests a non-empty tuple, which is always true, so it contributes no
    check;
  \<^item> every exception of the source is a value of \<open>error\<close>;
  \<^item> the Blender scene is a record that is passed in and returned updated; the armature
    of the imported template is assumed to own every bone named in the three name tables.
\<close>

subsection \<open>Vectors, matrices, quaternions\<close>

type_synonym vec3 = "real \<times> real \<times> real"
type_synonym mat3 = "vec3 \<times> vec3 \<times> vec3"
type_synonym quat = "real \<times> real \<times> real \<times> real"

datatype error = ValueError | ZeroDivisionError | IndexError

text \<open>
  Sequencing of statements that may raise: an exception of the first ends the
  computation, otherwise the second runs on the value of the first.
\<close>

fun and_then :: "error + 'a \<Rightarrow> ('a \<Rightarrow> error + 'b) \<Rightarrow> error + 'b" where
  "and_then (Inl e) f = Inl e"
| "and_then (Inr x) f = f x"

fun vec_sub :: "vec3 \<Rightarrow> vec3 \<Rightarrow> vec3" where
  "vec_sub (a, b, c) (x, y, z) = (a - x, b - y, c - z)"

fun vec_div :: "vec3 \<Rightarrow> real \<Rightarrow> vec3" where
  "vec_div (x, y, z) t = (x / t, y / t, z / t)"

fun dot :: "vec3 \<Rightarrow> vec3 \<Rightarrow> real" where
  "dot (a, b, c) (x, y, z) = a * x + b * y + c * z"

text \<open>\<^verbatim>\<open>np.linalg.norm\<close> of a 3-vector.\<close>

definition norm3 :: "vec3 \<Rightarrow> real" where
  "norm3 v = sqrt (dot v v)"

definition eye3 :: mat3 where
  "eye3 = ((1, 0, 0), (0, 1, 0), (0, 0, 1))"

fun vec_add :: "vec3 \<Rightarrow> vec3 \<Rightarrow> vec3" where
  "vec_add (a, b, c) (x, y, z) = (a + x, b + y, c + z)"

fun vec_scale :: "real \<Rightarrow> vec3 \<Rightarrow> vec3" where
  "vec_scale k (x, y, z) = (k * x, k * y, k * z)"

fun mat_add :: "mat3 \<Rightarrow> mat3 \<Rightarrow> mat3" where
  "mat_add (a, b, c) (x, y, z) = (vec_add a x, vec_add b y, vec_add c z)"

fun mat_scale :: "real \<Rightarrow> mat3 \<Rightarrow> mat3" where
  "mat_scale k (a, b, c) = (vec_scale k a, vec_scale k b, vec_scale k c)"

text \<open>
  The matrix \<^verbatim>\<open>mat\<close> of \<^verbatim>\<open>Rodrigues\<close>, with the rows \<open>(0, -r[2], r[1])\<close>, \<open>(r[2], 0, -r[0])\<close>
  and \<open>(-r[1], r[0], 0)\<close>.
\<close>

fun cross_matrix :: "vec3 \<Rightarrow> mat3" where
  "cross_matrix (r0, r1, r2) = ((0, - r2, r1), (r2, 0, - r0), (- r1, r0, 0))"

text \<open>
  \<^verbatim>\<open>r.dot(r.T)\<close>. When \<open>theta > 0\<close> the vector has been reshaped to a column \<open>(3, 1)\<close>, and
  the product is the outer product. Otherwise \<open>r\<close> is the unreshaped input of shape \<open>(3,)\<close>,
  the product is the scalar inner product, and numpy broadcasts it over the matrix.
\<close>

fun outer :: "vec3 \<Rightarrow> vec3 \<Rightarrow> mat3" where
  "outer (a, b, c) v = (vec_scale a v, vec_scale b v, vec_scale c v)"

definition broadcast :: "real \<Rightarrow> mat3" where
  "broadcast k = ((k, k, k), (k, k, k), (k, k, k))"

definition Rodrigues :: "vec3 \<Rightarrow> mat3" where
  "Rodrigues rotvec =
     (let theta = norm3 rotvec;
          r = (if theta > 0 then vec_div rotvec theta else rotvec);
          cost = cos theta;
          mat = cross_matrix r;
          rrT = (if theta > 0 then outer r r else broadcast (dot r r))
      in mat_add (mat_add (mat_scale cost eye3) (mat_scale (1 - cost) rrT))
                 (mat_scale (sin theta) mat))"

text \<open>
  Modelled from the spec: \<^verbatim>\<open>mathutils.Matrix.to_quaternion\<close> is a routine of the Blender
  library and not part of \<^verbatim>\<open>src/\<close>. Section 4.1 of the specification describes it as a
  matrix-to-quaternion conversion with trace-based branch selection; this is the usual
  four-branch procedure on the rows \<open>m0\<close>, \<open>m1\<close>, \<open>m2\<close> of the matrix, giving \<open>(w, x, y, z)\<close>.
\<close>

fun to_quaternion :: "mat3 \<Rightarrow> quat" where
  "to_quaternion ((m00, m01, m02), (m10, m11, m12), (m20, m21, m22)) =
     (if m00 + m11 + m22 > 0 then
        (let s = 2 * sqrt (1 + m00 + m11 + m22)
         in (s / 4, (m21 - m12) / s, (m02 - m20) / s, (m10 - m01) / s))
      else if m00 > m11 \<and> m00 > m22 then
        (let s = 2 * sqrt (1 + m00 - m11 - m22)
         in ((m21 - m12) / s, s / 4, (m01 + m10) / s, (m02 + m20) / s))
      else if m11 > m22 then
        (let s = 2 * sqrt (1 + m11 - m00 - m22)
         in ((m02 - m20) / s, (m01 + m10) / s, s / 4, (m12 + m21) / s))
      else
        (let s = 2 * sqrt (1 + m22 - m00 - m11)
         in ((m10 - m01) / s, (m02 + m20) / s, (m12 + m21) / s, s / 4)))"

subsection \<open>ToQuaternion\<close>

datatype rotvec_array = Vec3 vec3 | Rows "vec3 list"

datatype quat_array = Quat4 quat | QRows "quat list"

text \<open>\<^verbatim>\<open>np.stack(res, axis=0)\<close> raises \<^verbatim>\<open>ValueError\<close> on an empty list of arrays.\<close>

definition np_stack :: "'a list \<Rightarrow> error + 'a list" where
  "np_stack res = (if res = [] then Inl ValueError else Inr res)"

definition ToQuaternion :: "rotvec_array \<Rightarrow> error + quat_array" where
  "ToQuaternion rotvec =
     (case rotvec of
        Vec3 v \<Rightarrow> Inr (Quat4 (to_quaternion (Rodrigues v)))
      | Rows vs \<Rightarrow>
          and_then (np_stack (map (\<lambda>v. to_quaternion (Rodrigues v)) vs))
            (\<lambda>qs. Inr (QRows qs)))"

subsection \<open>get_input_data\<close>

text \<open>
  One \<^verbatim>\<open>.npz\<close> file of the input directory, as loaded by \<^verbatim>\<open>np.load\<close>. The entry
  \<^verbatim>\<open>transl\<close> is taken to hold three numbers, so that \<^verbatim>\<open>reshape(3)\<close> returns them.
\<close>

record npz_data =
  global_orient :: rotvec_array
  body_pose :: rotvec_array
  left_hand_pose :: rotvec_array
  right_hand_pose :: rotvec_array
  transl :: vec3

definition fix_coor :: mat3 where
  "fix_coor = ((1, 0, 0), (0, 1, 0), (0, 0, -1))"

text \<open>\<^verbatim>\<open>np.matmul(a, m)\<close>: every row vector of \<open>a\<close> is multiplied from the left onto \<open>m\<close>.\<close>

fun vec_matmul :: "vec3 \<Rightarrow> mat3 \<Rightarrow> vec3" where
  "vec_matmul (a, b, c) (r0, r1, r2) =
     vec_add (vec_add (vec_scale a r0) (vec_scale b r1)) (vec_scale c r2)"

definition np_matmul :: "rotvec_array \<Rightarrow> mat3 \<Rightarrow> rotvec_array" where
  "np_matmul a m =
     (case a of Vec3 v \<Rightarrow> Vec3 (vec_matmul v m)
      | Rows vs \<Rightarrow> Rows (map (\<lambda>v. vec_matmul v m) vs))"

fun quat_components :: "quat \<Rightarrow> real list" where
  "quat_components (w, x, y, z) = [w, x, y, z]"

text \<open>
  \<^verbatim>\<open>np.concatenate([a, b], axis=0).flatten()\<close>: two arrays of shape \<open>(4,)\<close> give eight
  numbers, two arrays of rows give the numbers of all rows in order, and arrays of
  different dimension raise \<^verbatim>\<open>ValueError\<close> in \<^verbatim>\<open>np.concatenate\<close>.
\<close>

fun concatenate_flatten :: "quat_array \<Rightarrow> quat_array \<Rightarrow> error + real list" where
  "concatenate_flatten (Quat4 a) (Quat4 b) = Inr (quat_components a @ quat_components b)"
| "concatenate_flatten (QRows qa) (QRows qb) = Inr (concat (map quat_components (qa @ qb)))"
| "concatenate_flatten _ _ = Inl ValueError"

text \<open>\<^verbatim>\<open>reshape(-1, 4)\<close> of a quaternion array: its rows.\<close>

fun reshape_rows4 :: "quat_array \<Rightarrow> quat list" where
  "reshape_rows4 (Quat4 q) = [q]"
| "reshape_rows4 (QRows qs) = qs"

text \<open>The body of the loop over the files: the four values appended for one file.\<close>

definition load_frame :: "npz_data \<Rightarrow> error + (real list \<times> quat list \<times> quat list \<times> vec3)" where
  "load_frame npz =
     and_then (ToQuaternion (global_orient npz)) (\<lambda>qg.
     and_then (ToQuaternion (body_pose npz)) (\<lambda>qb.
     and_then (concatenate_flatten qg qb) (\<lambda>rot.
     and_then (ToQuaternion (np_matmul (left_hand_pose npz) fix_coor)) (\<lambda>lhand_quaternions.
     and_then (ToQuaternion (np_matmul (right_hand_pose npz) fix_coor)) (\<lambda>rhand_quaternions.
       Inr (rot, reshape_rows4 lhand_quaternions, reshape_rows4 rhand_quaternions,
            transl npz))))))"

fun load_frames ::
  "npz_data list \<Rightarrow> error + (real list list \<times> quat list list \<times> quat list list \<times> vec3 list)" where
  "load_frames [] = Inr ([], [], [], [])"
| "load_frames (npz # rest) =
     and_then (load_frame npz) (\<lambda>(p, l, r, t).
     and_then (load_frames rest) (\<lambda>(ps, ls, rs, ts).
       Inr (p # ps, l # ls, r # rs, t # ts)))"

text \<open>
  \<^verbatim>\<open>np.vstack\<close> and \<^verbatim>\<open>np.stack\<close> of a list of arrays: \<^verbatim>\<open>ValueError\<close> when the list is empty
  or when the arrays differ in shape (here: in their number of entries).
\<close>

definition stack_arrays :: "'a list list \<Rightarrow> error + 'a list list" where
  "stack_arrays xs =
     (if xs = [] then Inl ValueError
      else if list_all (\<lambda>x. length x = length (hd xs)) xs then Inr xs
      else Inl ValueError)"

text \<open>The argument is the content of the input directory in sorted file order.\<close>

definition get_input_data ::
  "npz_data list \<Rightarrow> error + (real list list \<times> quat list list \<times> quat list list \<times> vec3 list)" where
  "get_input_data frame_list =
     and_then (load_frames frame_list) (\<lambda>(ps, ls, rs, ts).
     and_then (stack_arrays ps) (\<lambda>poses.
     and_then (stack_arrays ls) (\<lambda>lhposes.
     and_then (stack_arrays rs) (\<lambda>rhposes.
     and_then (np_stack ts) (\<lambda>trans_v.
       Inr (poses, lhposes, rhposes, trans_v))))))"

subsection \<open>The scene\<close>

text \<open>
  What the script changes in the Blender scene: the frame rate, the end frame, and the
  keyframes inserted by \<^verbatim>\<open>keyframe_insert\<close>, in insertion order. A keyframe records the
  bone, the frame number and the value of the keyed channel. The frame rate and the end
  frame are recorded as the script assigns them; what Blender makes of a value outside
  the range of the property is not represented.
\<close>

datatype keyframe = LocationKey string int vec3 | RotationKey string int quat

record scene =
  fps :: int
  frame_end :: int
  keyframes :: "keyframe list"

definition setup_scene :: "int \<Rightarrow> scene \<Rightarrow> scene" where
  "setup_scene fps_target sc = sc\<lparr>fps := fps_target\<rparr>"

definition keyframe_insert :: "keyframe \<Rightarrow> scene \<Rightarrow> scene" where
  "keyframe_insert k sc = sc\<lparr>keyframes := keyframes sc @ [k]\<rparr>"

definition BODY_JOINT_NAMES :: "string list" where
  "BODY_JOINT_NAMES =
     [''pelvis'', ''left_hip'', ''right_hip'', ''spine1'', ''left_knee'', ''right_knee'',
      ''spine2'', ''left_ankle'', ''right_ankle'', ''spine3'', ''left_foot'', ''right_foot'',
      ''neck'', ''left_collar'', ''right_collar'', ''head'', ''left_shoulder'',
      ''right_shoulder'', ''left_elbow'', ''right_elbow'', ''left_wrist'', ''right_wrist'']"

definition LHAND_JOINT_NAMES :: "string list" where
  "LHAND_JOINT_NAMES =
     [''left_index1'', ''left_index2'', ''left_index3'', ''left_middle1'', ''left_middle2'',
      ''left_middle3'', ''left_pinky1'', ''left_pinky2'', ''left_pinky3'', ''left_ring1'',
      ''left_ring2'', ''left_ring3'', ''left_thumb1'', ''left_thumb2'', ''left_thumb3'']"

definition RHAND_JOINT_NAMES :: "string list" where
  "RHAND_JOINT_NAMES =
     [''right_index1'', ''right_index2'', ''right_index3'', ''right_middle1'',
      ''right_middle2'', ''right_middle3'', ''right_pinky1'', ''right_pinky2'',
      ''right_pinky3'', ''right_ring1'', ''right_ring2'', ''right_ring3'', ''right_thumb1'',
      ''right_thumb2'', ''right_thumb3'']"

subsection \<open>process_pose\<close>

text \<open>
  Modelled from the spec: the constructor \<^verbatim>\<open>mathutils.Quaternion(axis, angle)\<close> and the
  operator \<^verbatim>\<open>@\<close> are routines of the Blender library and not part of \<^verbatim>\<open>src/\<close>.
  Section 4.5 of the specification reads them as the quaternion of a rotation about an
  axis and the composition of quaternions: the constructor is taken as
  \<open>(cos (angle / 2), sin (angle / 2) * axis)\<close> for the normalised axis, the operator as
  the Hamilton product. \<^verbatim>\<open>Quaternion(mat_rot)\<close> on four numbers is the quaternion with these
  components.
\<close>

definition radians :: "real \<Rightarrow> real" where
  "radians d = d * pi / 180"

definition Quaternion_axis_angle :: "vec3 \<Rightarrow> real \<Rightarrow> quat" where
  "Quaternion_axis_angle axis angle =
     (case vec_scale (sin (angle / 2)) (vec_div axis (norm3 axis)) of
        (x, y, z) \<Rightarrow> (cos (angle / 2), x, y, z))"

fun quat_mul :: "quat \<Rightarrow> quat \<Rightarrow> quat" where
  "quat_mul (w1, x1, y1, z1) (w2, x2, y2, z2) =
     (w1 * w2 - x1 * x2 - y1 * y2 - z1 * z2,
      w1 * x2 + x1 * w2 + y1 * z2 - z1 * y2,
      w1 * y2 - x1 * z2 + y1 * w2 + z1 * x2,
      w1 * z2 + x1 * y2 - y1 * x2 + z1 * w2)"

definition quat_x_180_cw :: quat where
  "quat_x_180_cw = Quaternion_axis_angle (1, 0, 0) (radians (- 180))"

text \<open>
  \<^verbatim>\<open>pose.reshape(22, 4)\<close> on a flat array and \<^verbatim>\<open>handpose.reshape(15, 4)\<close> on an array of
  rows: \<^verbatim>\<open>ValueError\<close> unless the number of entries is that of the new shape.
\<close>

fun rows4 :: "real list \<Rightarrow> quat list" where
  "rows4 (w # x # y # z # rest) = (w, x, y, z) # rows4 rest"
| "rows4 _ = []"

definition reshape_flat :: "nat \<Rightarrow> real list \<Rightarrow> error + quat list" where
  "reshape_flat n xs = (if length xs = n * 4 then Inr (rows4 xs) else Inl ValueError)"

definition reshape_rows :: "nat \<Rightarrow> quat list \<Rightarrow> error + quat list" where
  "reshape_rows n qs = (if length qs = n then Inr qs else Inl ValueError)"

text \<open>The bodies of the three loops over \<^verbatim>\<open>enumerate(..., 0)\<close>.\<close>

fun body_step :: "int \<Rightarrow> nat \<times> quat \<Rightarrow> scene \<Rightarrow> scene" where
  "body_step current_frame (index, mat_rot) sc =
     (if index \<ge> 22 then sc
      else keyframe_insert
             (RotationKey (BODY_JOINT_NAMES ! index) current_frame
                (if index = 0 then quat_mul quat_x_180_cw mat_rot else mat_rot)) sc)"

fun hand_step :: "string list \<Rightarrow> int \<Rightarrow> nat \<times> quat \<Rightarrow> scene \<Rightarrow> scene" where
  "hand_step names current_frame (index, mat_rot) sc =
     (if index \<ge> 15 then sc
      else keyframe_insert (RotationKey (names ! index) current_frame mat_rot) sc)"

definition process_pose ::
  "int \<Rightarrow> real list \<Rightarrow> quat list \<Rightarrow> quat list \<Rightarrow> vec3 \<Rightarrow> vec3 \<Rightarrow> scene \<Rightarrow> error + scene" where
  "process_pose current_frame pose lhandpose rhandpose trans_v pelvis_position sc =
     and_then (reshape_flat 22 pose) (\<lambda>rod_rots.
     and_then (reshape_rows 15 lhandpose) (\<lambda>lhrod_rots.
     and_then (reshape_rows 15 rhandpose) (\<lambda>rhrod_rots.
        Inr (fold (hand_step RHAND_JOINT_NAMES current_frame) (enumerate 0 rhrod_rots)
            (fold (hand_step LHAND_JOINT_NAMES current_frame) (enumerate 0 lhrod_rots)
            (fold (body_step current_frame) (enumerate 0 rod_rots)
            (keyframe_insert
               (LocationKey (BODY_JOINT_NAMES ! 0) current_frame
                  (vec_sub (fst trans_v, fst (snd trans_v), 0) pelvis_position)) sc)))))))"

subsection \<open>process_poses\<close>

text \<open>Indexing a numpy array along its first axis; a negative index counts from the end.\<close>

definition np_index :: "'a list \<Rightarrow> int \<Rightarrow> error + 'a" where
  "np_index xs i =
     (if 0 \<le> i \<and> i < int (length xs) then Inr (xs ! nat i)
      else if i < 0 \<and> - int (length xs) \<le> i then Inr (xs ! nat (int (length xs) + i))
      else Inl IndexError)"

text \<open>
  \<^verbatim>\<open>int(a / b)\<close> for integers \<open>a\<close> and \<open>b \<noteq> 0\<close>: the quotient truncated towards zero (the
  rounding of the float quotient of very large integers is not represented).
\<close>

definition int_of_quotient :: "int \<Rightarrow> int \<Rightarrow> int" where
  "int_of_quotient a b =
     (if (a < 0) = (b < 0) then \<bar>a\<bar> div \<bar>b\<bar> else - (\<bar>a\<bar> div \<bar>b\<bar>))"

text \<open>
  One pass through the body of the \<^verbatim>\<open>while\<close> loop, up to the two increments: the offset
  after the pass and the scene after \<^verbatim>\<open>process_pose\<close>. (\<^verbatim>\<open>scene.frame_set\<close> moves the
  frame cursor only; every keyframe is inserted with its frame number given.)
\<close>

definition loop_body ::
  "real list list \<Rightarrow> quat list list \<Rightarrow> quat list list \<Rightarrow> vec3 list \<Rightarrow> bool \<Rightarrow> vec3 \<Rightarrow>
   int \<Rightarrow> int \<Rightarrow> vec3 \<Rightarrow> scene \<Rightarrow> error + (vec3 \<times> scene)" where
  "loop_body poses lhposes rhposes trans_v start_origin pelvis_position source_index frame
     offset sc =
     and_then (if start_origin \<and> source_index = 0
               then and_then (np_index trans_v source_index)
                      (\<lambda>t. Inr (fst t, fst (snd t), 0))
               else Inr offset) (\<lambda>offset'.
     and_then (np_index poses source_index) (\<lambda>pose.
     and_then (np_index lhposes source_index) (\<lambda>lhandpose.
     and_then (np_index rhposes source_index) (\<lambda>rhandpose.
     and_then (np_index trans_v source_index) (\<lambda>t.
     and_then (process_pose frame pose lhandpose rhandpose (vec_sub t offset')
                 pelvis_position sc) (\<lambda>sc'.
       Inr (offset', sc')))))))"

text \<open>
  The \<^verbatim>\<open>while\<close> loop. With a stride of zero it would not end, so it is a partial function:
  \<open>None\<close> stands for a run that does not return. An exception leaves the scene as the
  completed passes made it.
\<close>

partial_function (option) process_loop ::
  "real list list \<Rightarrow> quat list list \<Rightarrow> quat list list \<Rightarrow> vec3 list \<Rightarrow> bool \<Rightarrow> vec3 \<Rightarrow>
   int \<Rightarrow> int \<Rightarrow> int \<Rightarrow> vec3 \<Rightarrow> scene \<Rightarrow> (scene \<times> (error + int)) option" where
  "process_loop poses lhposes rhposes trans_v start_origin pelvis_position sample_rate
     source_index frame offset sc =
     (if source_index < int (length poses) then
        (case loop_body poses lhposes rhposes trans_v start_origin pelvis_position
                source_index frame offset sc of
           Inl e \<Rightarrow> Some (sc, Inl e)
         | Inr (offset', sc') \<Rightarrow>
             process_loop poses lhposes rhposes trans_v start_origin pelvis_position
               sample_rate (source_index + sample_rate) (frame + 1) offset' sc')
      else Some (sc, Inr frame))"

text \<open>
  \<^verbatim>\<open>process_poses\<close>, with the files of the input directory, the bind-pose head of the
  pelvis bone and the scene as arguments. The result is the scene as the run leaves it
  and either the exception that ended the run or the returned frame counter.
\<close>

definition process_poses ::
  "npz_data list \<Rightarrow> vec3 \<Rightarrow> int \<Rightarrow> int \<Rightarrow> bool \<Rightarrow> scene \<Rightarrow> (scene \<times> (error + int)) option" where
  "process_poses input pelvis_position fps_source fps_target start_origin sc =
     (case get_input_data input of Inl e \<Rightarrow> Some (sc, Inl e)
      | Inr (poses, lhposes, rhposes, trans_v) \<Rightarrow>
        (let fps_target = (if fps_target > fps_source then fps_source else fps_target);
             sc1 = setup_scene fps_target sc
         in if fps_target = 0 then Some (sc1, Inl ZeroDivisionError)
            else
              (let sample_rate = int_of_quotient fps_source fps_target
               in if sample_rate = 0 then Some (sc1, Inl ZeroDivisionError)
                  else process_loop poses lhposes rhposes trans_v start_origin pelvis_position
                         sample_rate 0 1 (0, 0, 0)
                         (sc1\<lparr>frame_end := int_of_quotient (int (length poses)) sample_rate\<rparr>))))"

subsection \<open>Closed forms\<close>

text \<open>
  The keyframes that one successful call of \<^verbatim>\<open>process_pose\<close> inserts, in insertion order:
  the location of the pelvis, the rotations of the 22 body bones, of the 15 bones of the
  left hand and of the 15 bones of the right hand (\<open>process_pose_ok\<close> below).
\<close>

definition frame_keyframes ::
  "int \<Rightarrow> real list \<Rightarrow> quat list \<Rightarrow> quat list \<Rightarrow> vec3 \<Rightarrow> vec3 \<Rightarrow> keyframe list" where
  "frame_keyframes f pose lhandpose rhandpose t pelvis_position =
     LocationKey ''pelvis'' f (vec_sub (fst t, fst (snd t), 0) pelvis_position) #
     RotationKey ''pelvis'' f (quat_mul quat_x_180_cw (rows4 pose ! 0)) #
     map (\<lambda>i. RotationKey (BODY_JOINT_NAMES ! i) f (rows4 pose ! i)) [1..<22] @
     map (\<lambda>i. RotationKey (LHAND_JOINT_NAMES ! i) f (lhandpose ! i)) [0..<15] @
     map (\<lambda>i. RotationKey (RHAND_JOINT_NAMES ! i) f (rhandpose ! i)) [0..<15]"

text \<open>
  The offset in force after a pass of the loop that starts at source index \<open>i\<close> with the
  given offset.
\<close>

definition captured_offset :: "bool \<Rightarrow> vec3 list \<Rightarrow> nat \<Rightarrow> vec3 \<Rightarrow> vec3" where
  "captured_offset start_origin trans_v i offset =
     (if start_origin \<and> i = 0 then (fst (trans_v ! 0), fst (snd (trans_v ! 0)), 0)
      else offset)"

text \<open>The rotation vectors of an array, as a list.\<close>

fun vectors :: "rotvec_array \<Rightarrow> vec3 list" where
  "vectors (Vec3 v) = [v]"
| "vectors (Rows vs) = vs"

text \<open>
  The shape of a file that the run accepts: global orientation and body pose are arrays
  of rows with 22 rows together, and each hand pose is an array of 15 rows.
\<close>

definition well_shaped :: "npz_data \<Rightarrow> bool" where
  "well_shaped npz =
     (case (global_orient npz, body_pose npz, left_hand_pose npz, right_hand_pose npz) of
        (Rows g, Rows b, Rows l, Rows r) \<Rightarrow>
          g \<noteq> [] \<and> b \<noteq> [] \<and> length g + length b = 22 \<and> length l = 15 \<and> length r = 15
      | _ \<Rightarrow> False)"

text \<open>The rotation of a vector by a unit quaternion \<open>q\<close>: the vector part of \<open>q v q\<^sup>*\<close>.\<close>

fun quat_conj :: "quat \<Rightarrow> quat" where
  "quat_conj (w, x, y, z) = (w, - x, - y, - z)"

definition quat_rotate :: "quat \<Rightarrow> vec3 \<Rightarrow> vec3" where
  "quat_rotate q v = snd (quat_mul (quat_mul q (0, v)) (quat_conj q))"

text \<open>
  A file for the concrete runs below: zero body rotations, left-hand vectors \<open>(0, 0, 1)\<close>,
  zero right-hand vectors and a given translation.
\<close>

definition sample_frame :: "vec3 \<Rightarrow> npz_data" where
  "sample_frame t =
     \<lparr>global_orient = Rows [(0, 0, 0)], body_pose = Rows (replicate 21 (0, 0, 0)),
      left_hand_pose = Rows (replicate 15 (0, 0, 1)),
      right_hand_pose = Rows (replicate 15 (0, 0, 0)), transl = t\<rparr>"

text \<open>The frame number of a keyframe, and the location keyframes of a list in order.\<close>

fun key_frame :: "keyframe \<Rightarrow> int" where
  "key_frame (LocationKey b f v) = f"
| "key_frame (RotationKey b f q) = f"

fun locations :: "keyframe list \<Rightarrow> (int \<times> vec3) list" where
  "locations [] = []"
| "locations (LocationKey b f v # ks) = (f, v) # locations ks"
| "locations (RotationKey b f q # ks) = locations ks"


text \<open>A file with 20 rows of body pose instead of 21.\<close>

definition short_frame :: npz_data where
  "short_frame =
     \<lparr>global_orient = Rows [(0, 0, 0)], body_pose = Rows (replicate 20 (0, 0, 0)),
      left_hand_pose = Rows (replicate 15 (0, 0, 1)),
      right_hand_pose = Rows (replicate 15 (0, 0, 0)), transl = (0, 0, 0)\<rparr>"

subsection \<open>Properties of the rotation converter\<close>

lemma Rodrigues_zero: "Rodrigues (0, 0, 0) = eye3"
  by (simp add: Rodrigues_def norm3_def eye3_def broadcast_def)

lemma to_quaternion_eye3: "to_quaternion eye3 = (1, 0, 0, 0)"
  by (simp add: eye3_def)

lemma convert_zero: "to_quaternion (Rodrigues (0, 0, 0)) = (1, 0, 0, 0)"
  by (simp only: Rodrigues_zero to_quaternion_eye3)

subsection \<open>The keyframes of one frame\<close>

lemma and_then_Inr_iff:
  "and_then m f = Inr y \<longleftrightarrow> (\<exists>x. m = Inr x \<and> f x = Inr y)"
  by (cases m) auto

lemma fold_body_step:
  "\<forall>p \<in> set xs. fst p < 22 \<Longrightarrow>
   fold (body_step f) xs sc =
   sc\<lparr>keyframes := keyframes sc @
        map (\<lambda>(i, q). RotationKey (BODY_JOINT_NAMES ! i) f
              (if i = 0 then quat_mul quat_x_180_cw q else q)) xs\<rparr>"
proof (induction xs arbitrary: sc)
  case Nil
  then show ?case by simp
next
  case (Cons p ps)
  obtain i q where p: "p = (i, q)" by (cases p)
  with Cons.prems have "i < 22" by simp
  with Cons p show ?case by (simp add: keyframe_insert_def)
qed

lemma fold_hand_step:
  "\<forall>p \<in> set xs. fst p < 15 \<Longrightarrow>
   fold (hand_step names f) xs sc =
   sc\<lparr>keyframes := keyframes sc @ map (\<lambda>(i, q). RotationKey (names ! i) f q) xs\<rparr>"
proof (induction xs arbitrary: sc)
  case Nil
  then show ?case by simp
next
  case (Cons p ps)
  obtain i q where p: "p = (i, q)" by (cases p)
  with Cons.prems have "i < 15" by simp
  with Cons p show ?case by (simp add: keyframe_insert_def)
qed

lemma map_enumerate:
  "map g (enumerate 0 xs) = map (\<lambda>i. g (i, xs ! i)) [0..<length xs]"
  by (rule nth_equalityI) (simp_all add: nth_enumerate_eq)

lemma set_enumerate_bound: "p \<in> set (enumerate 0 xs) \<Longrightarrow> fst p < length xs"
  by (auto simp: in_set_enumerate_eq)

lemma rows4_flatten: "rows4 (concat (map quat_components qs)) = qs"
  by (induction qs) auto

lemma length_flatten: "length (concat (map quat_components qs)) = 4 * length qs"
  by (induction qs) auto

lemma length_rows4: "length (rows4 xs) = length xs div 4"
  by (induction xs rule: rows4.induct) auto

lemma body_names_0: "BODY_JOINT_NAMES ! 0 = ''pelvis''"
  by (simp add: BODY_JOINT_NAMES_def)

lemma process_pose_ok:
  assumes "length pose = 88" "length lhandpose = 15" "length rhandpose = 15"
  shows "process_pose f pose lhandpose rhandpose t pelvis_position sc =
         Inr (sc\<lparr>keyframes := keyframes sc @
                  frame_keyframes f pose lhandpose rhandpose t pelvis_position\<rparr>)"
proof -
  have n: "length (rows4 pose) = 22"
    using assms(1) by (simp add: length_rows4)
  have b: "\<forall>p \<in> set (enumerate 0 (rows4 pose)). fst p < 22"
    using set_enumerate_bound n by metis
  have l: "\<forall>p \<in> set (enumerate 0 lhandpose). fst p < 15"
    using set_enumerate_bound assms(2) by metis
  have r: "\<forall>p \<in> set (enumerate 0 rhandpose). fst p < 15"
    using set_enumerate_bound assms(3) by metis
  have upt22: "[0..<22] = 0 # [1..<22]"
    by (simp add: upt_conv_Cons)
  show ?thesis
    using assms
    by (simp add: process_pose_def reshape_flat_def reshape_rows_def fold_body_step [OF b]
        fold_hand_step [OF l] fold_hand_step [OF r] keyframe_insert_def map_enumerate n
        frame_keyframes_def body_names_0 upt22 del: upt.simps upt_Suc)
qed

lemma process_pose_fails:
  assumes "length pose \<noteq> 88 \<or> length lhandpose \<noteq> 15 \<or> length rhandpose \<noteq> 15"
  shows "process_pose f pose lhandpose rhandpose t pelvis_position sc = Inl ValueError"
  using assms by (auto simp: process_pose_def reshape_flat_def reshape_rows_def)

subsection \<open>Zero rotation vectors\<close>

lemma ToQuaternion_Rows:
  "ToQuaternion (Rows vs) =
     (if vs = [] then Inl ValueError
      else Inr (QRows (map (\<lambda>v. to_quaternion (Rodrigues v)) vs)))"
  by (simp add: ToQuaternion_def np_stack_def)

lemma ToQuaternion_Vec3: "ToQuaternion (Vec3 v) = Inr (Quat4 (to_quaternion (Rodrigues v)))"
  by (simp add: ToQuaternion_def)

text \<open>
  Claim C2. The zero rotation vector is converted to the identity quaternion
  \<open>(1, 0, 0, 0)\<close>: by the single-vector path of \<^verbatim>\<open>ToQuaternion\<close>, and by the batched
  path in every row that holds the zero vector, whatever the other rows hold.
\<close>

theorem ToQuaternion_zero_identity:
  "ToQuaternion (Vec3 (0, 0, 0)) = Inr (Quat4 (1, 0, 0, 0)) \<and>
   (\<forall>vs. vs \<noteq> [] \<longrightarrow>
      (\<exists>qs. ToQuaternion (Rows vs) = Inr (QRows qs) \<and> length qs = length vs \<and>
            (\<forall>i < length vs. vs ! i = (0, 0, 0) \<longrightarrow> qs ! i = (1, 0, 0, 0))))"
proof (intro conjI allI impI)
  show "ToQuaternion (Vec3 (0, 0, 0)) = Inr (Quat4 (1, 0, 0, 0))"
    by (simp only: ToQuaternion_Vec3 convert_zero)
next
  fix vs :: "vec3 list"
  assume "vs \<noteq> []"
  let ?qs = "map (\<lambda>v. to_quaternion (Rodrigues v)) vs"
  have "ToQuaternion (Rows vs) = Inr (QRows ?qs)"
    using \<open>vs \<noteq> []\<close> by (simp add: ToQuaternion_Rows)
  moreover have "length ?qs = length vs"
    by simp
  moreover have "\<forall>i < length vs. vs ! i = (0, 0, 0) \<longrightarrow> ?qs ! i = (1, 0, 0, 0)"
    by (simp add: convert_zero)
  ultimately show "\<exists>qs. ToQuaternion (Rows vs) = Inr (QRows qs) \<and> length qs = length vs \<and>
            (\<forall>i < length vs. vs ! i = (0, 0, 0) \<longrightarrow> qs ! i = (1, 0, 0, 0))"
    by blast
qed

theorem ToQuaternion_zero_identity_witness:
  "[(0, 0, 0), (1, 0, 0)] \<noteq> ([] :: vec3 list) \<and>
   (\<exists>qs. ToQuaternion (Rows [(0, 0, 0), (1, 0, 0)]) = Inr (QRows qs) \<and> length qs = 2 \<and>
       qs ! 0 = (1, 0, 0, 0))"
proof -
  let ?vs = "[(0, 0, 0), (1, 0, 0)] :: vec3 list"
  have ne: "?vs \<noteq> []"
    by simp
  have "\<forall>vs. vs \<noteq> [] \<longrightarrow>
      (\<exists>qs. ToQuaternion (Rows vs) = Inr (QRows qs) \<and> length qs = length vs \<and>
            (\<forall>i < length vs. vs ! i = (0, 0, 0) \<longrightarrow> qs ! i = (1, 0, 0, 0)))"
    using ToQuaternion_zero_identity by (rule conjunct2)
  then have "?vs \<noteq> [] \<longrightarrow>
      (\<exists>qs. ToQuaternion (Rows ?vs) = Inr (QRows qs) \<and> length qs = length ?vs \<and>
            (\<forall>i < length ?vs. ?vs ! i = (0, 0, 0) \<longrightarrow> qs ! i = (1, 0, 0, 0)))"
    by (rule spec)
  with ne obtain qs where q: "ToQuaternion (Rows ?vs) = Inr (QRows qs)"
    "length qs = length ?vs"
    "\<forall>i < length ?vs. ?vs ! i = (0, 0, 0) \<longrightarrow> qs ! i = (1, 0, 0, 0)"
    by (elim impE exE conjE)
  from q(3) have "qs ! 0 = (1, 0, 0, 0)"
    by simp
  moreover from q(2) have "length qs = 2"
    by simp
  ultimately show ?thesis
    using q(1) ne by (intro conjI exI [of _ qs])
qed

subsection \<open>Rotations keyed by process_pose\<close>

lemma quat_x_180_cw_value: "quat_x_180_cw = (0, - 1, 0, 0)"
  by (simp add: quat_x_180_cw_def Quaternion_axis_angle_def radians_def norm3_def)

lemma quat_x_180_cw_rotate: "quat_rotate quat_x_180_cw (x, y, z) = (x, - y, - z)"
  by (simp add: quat_x_180_cw_value quat_rotate_def)

text \<open>
  Claim C5. In the keyframes of a frame, the quaternion keyed on the pelvis is the
  corrective quaternion \<open>quat_x_180_cw\<close> multiplied from the left onto the assembled root
  quaternion, and the quaternion keyed on each of the other 21 body bones and on each of
  the 15 + 15 hand bones is the assembled quaternion itself. The corrective quaternion is
  \<open>(0, -1, 0, 0)\<close>; it turns every vector by half a turn about the X axis.
\<close>

theorem process_pose_rotations:
  assumes "length qs = 22" and "length lhandpose = 15" and "length rhandpose = 15"
  shows "process_pose f (concat (map quat_components qs)) lhandpose rhandpose t
           pelvis_position sc =
         Inr (sc\<lparr>keyframes := keyframes sc @
                [LocationKey ''pelvis'' f (vec_sub (fst t, fst (snd t), 0) pelvis_position),
                 RotationKey ''pelvis'' f (quat_mul quat_x_180_cw (qs ! 0))] @
                map (\<lambda>i. RotationKey (BODY_JOINT_NAMES ! i) f (qs ! i)) [1..<22] @
                map (\<lambda>i. RotationKey (LHAND_JOINT_NAMES ! i) f (lhandpose ! i)) [0..<15] @
                map (\<lambda>i. RotationKey (RHAND_JOINT_NAMES ! i) f (rhandpose ! i)) [0..<15]\<rparr>)
         \<and> quat_x_180_cw = (0, - 1, 0, 0)
         \<and> (\<forall>x y z. quat_rotate quat_x_180_cw (x, y, z) = (x, - y, - z))"
proof -
  have "length (concat (map quat_components qs)) = 88"
    using assms(1) by (simp add: length_flatten)
  then have "process_pose f (concat (map quat_components qs)) lhandpose rhandpose t
           pelvis_position sc =
         Inr (sc\<lparr>keyframes := keyframes sc @
           frame_keyframes f (concat (map quat_components qs)) lhandpose rhandpose t
             pelvis_position\<rparr>)"
    using assms(2,3) by (rule process_pose_ok)
  then have "process_pose f (concat (map quat_components qs)) lhandpose rhandpose t
           pelvis_position sc =
         Inr (sc\<lparr>keyframes := keyframes sc @
                [LocationKey ''pelvis'' f (vec_sub (fst t, fst (snd t), 0) pelvis_position),
                 RotationKey ''pelvis'' f (quat_mul quat_x_180_cw (qs ! 0))] @
                map (\<lambda>i. RotationKey (BODY_JOINT_NAMES ! i) f (qs ! i)) [1..<22] @
                map (\<lambda>i. RotationKey (LHAND_JOINT_NAMES ! i) f (lhandpose ! i)) [0..<15] @
                map (\<lambda>i. RotationKey (RHAND_JOINT_NAMES ! i) f (rhandpose ! i)) [0..<15]\<rparr>)"
    by (simp add: frame_keyframes_def rows4_flatten del: upt.simps upt_Suc)
  moreover have "\<forall>x y z. quat_rotate quat_x_180_cw (x, y, z) = (x, - y, - z)"
    by (simp only: quat_x_180_cw_rotate simp_thms)
  ultimately show ?thesis
    using quat_x_180_cw_value by (intro conjI)
qed

theorem process_pose_rotations_witness:
  "length (replicate 22 (1, 0, 0, 0) :: quat list) = 22 \<and>
   length (replicate 15 (1, 0, 0, 0) :: quat list) = 15 \<and>
   process_pose 1 (concat (map quat_components (replicate 22 (1, 0, 0, 0))))
     (replicate 15 (1, 0, 0, 0)) (replicate 15 (1, 0, 0, 0)) (2, - 1, 5) (0, 0, 1)
     \<lparr>fps = 30, frame_end = 1, keyframes = []\<rparr> =
   Inr \<lparr>fps = 30, frame_end = 1, keyframes =
         [LocationKey ''pelvis'' 1 (2, - 1, - 1), RotationKey ''pelvis'' 1 (0, - 1, 0, 0)] @
         map (\<lambda>i. RotationKey (BODY_JOINT_NAMES ! i) 1 (1, 0, 0, 0)) [1..<22] @
         map (\<lambda>i. RotationKey (LHAND_JOINT_NAMES ! i) 1 (1, 0, 0, 0)) [0..<15] @
         map (\<lambda>i. RotationKey (RHAND_JOINT_NAMES ! i) 1 (1, 0, 0, 0)) [0..<15]\<rparr>"
proof -
  have a: "length (replicate 22 (1, 0, 0, 0) :: quat list) = 22"
    and b: "length (replicate 15 (1, 0, 0, 0) :: quat list) = 15"
    by simp_all
  have v: "quat_mul quat_x_180_cw (1, 0, 0, 0) = (0, - 1, 0, 0)"
    by (simp add: quat_x_180_cw_value)
  have m: "\<And>n g (q :: quat) ks. set ks \<subseteq> {0..<n} \<Longrightarrow>
             map (\<lambda>i. g i (replicate n q ! i)) ks = map (\<lambda>i. g i q) ks"
    by (rule map_cong) auto
  show ?thesis
    using process_pose_rotations [OF a b b, of 1 "(2, - 1, 5)" "(0, 0, 1)"
        "\<lparr>fps = 30, frame_end = 1, keyframes = []\<rparr>"]
    by (simp add: v m del: upt.simps upt_Suc replicate.simps replicate_Suc
        cong: map_cong)
qed

subsection \<open>The arrays of get_input_data\<close>

lemma load_frame_Inr:
  assumes "load_frame npz = Inr (rot, lh, rh, t)"
  shows "rot = concat (map quat_components (map (\<lambda>v. to_quaternion (Rodrigues v))
                  (vectors (global_orient npz) @ vectors (body_pose npz))))"
    and "lh = map (\<lambda>v. to_quaternion (Rodrigues (vec_matmul v fix_coor)))
                  (vectors (left_hand_pose npz))"
    and "rh = map (\<lambda>v. to_quaternion (Rodrigues (vec_matmul v fix_coor)))
                  (vectors (right_hand_pose npz))"
    and "t = transl npz"
  using assms
  by (cases "global_orient npz"; cases "body_pose npz"; cases "left_hand_pose npz";
      cases "right_hand_pose npz";
      simp add: load_frame_def ToQuaternion_Rows ToQuaternion_Vec3 np_matmul_def
         split: if_splits; simp add: comp_def)+

lemma vec_matmul_fix_coor: "vec_matmul (x, y, z) fix_coor = (x, y, - z)"
  by (simp add: fix_coor_def)

lemma load_frames_Inr:
  "load_frames input = Inr (P, L, R, T) \<Longrightarrow>
   length P = length input \<and> length L = length input \<and> length R = length input \<and>
   length T = length input \<and>
   (\<forall>j < length input. load_frame (input ! j) = Inr (P ! j, L ! j, R ! j, T ! j))"
proof (induction input arbitrary: P L R T)
  case Nil
  then show ?case by simp
next
  case (Cons npz rest)
  from Cons.prems obtain p l r t ps ls rs ts
    where hd: "load_frame npz = Inr (p, l, r, t)"
      and tl: "load_frames rest = Inr (ps, ls, rs, ts)"
      and eq: "P = p # ps" "L = l # ls" "R = r # rs" "T = t # ts"
    by (auto simp: and_then_Inr_iff)
  note ih = Cons.IH [OF tl]
  show ?case
  proof (intro conjI allI impI)
    fix j
    assume j: "j < length (npz # rest)"
    show "load_frame ((npz # rest) ! j) = Inr (P ! j, L ! j, R ! j, T ! j)"
    proof (cases j)
      case 0
      with hd eq show ?thesis by simp
    next
      case (Suc k)
      with j have "k < length rest" by simp
      with ih have "load_frame (rest ! k) = Inr (ps ! k, ls ! k, rs ! k, ts ! k)" by simp
      with Suc eq show ?thesis by simp
    qed
  qed (use ih eq in simp_all)
qed

lemma stack_arrays_Inr:
  assumes "stack_arrays xs = Inr ys"
  shows "ys = xs \<and> xs \<noteq> [] \<and> (\<exists>n. \<forall>x \<in> set xs. length x = n)"
proof -
  from assms have ne: "xs \<noteq> []"
    by (auto simp: stack_arrays_def split: if_splits)
  from assms ne have all: "list_all (\<lambda>x. length x = length (hd xs)) xs"
    by (auto simp: stack_arrays_def split: if_splits)
  from assms ne all have "ys = xs"
    by (simp add: stack_arrays_def)
  moreover from all have "\<exists>n. \<forall>x \<in> set xs. length x = n"
    unfolding list_all_iff by (rule exI)
  ultimately show ?thesis
    using ne by (intro conjI)
qed

lemma np_stack_Inr: "np_stack xs = Inr ys \<Longrightarrow> ys = xs \<and> xs \<noteq> []"
  by (cases "xs = []") (simp_all add: np_stack_def)

lemma get_input_data_Inr:
  assumes "get_input_data input = Inr (P, L, R, T)"
  shows "load_frames input = Inr (P, L, R, T)"
    and "input \<noteq> []"
    and "\<exists>n. \<forall>p \<in> set P. length p = n"
    and "\<exists>n. \<forall>l \<in> set L. length l = n"
    and "\<exists>n. \<forall>r \<in> set R. length r = n"
proof -
  obtain ps ls rs ts where lf: "load_frames input = Inr (ps, ls, rs, ts)"
    by (cases "load_frames input") (use assms in \<open>auto simp: get_input_data_def\<close>)
  with assms obtain P' where p: "stack_arrays ps = Inr P'"
    by (cases "stack_arrays ps") (auto simp: get_input_data_def)
  with assms lf obtain L' where l: "stack_arrays ls = Inr L'"
    by (cases "stack_arrays ls") (auto simp: get_input_data_def)
  with assms lf p obtain R' where r: "stack_arrays rs = Inr R'"
    by (cases "stack_arrays rs") (auto simp: get_input_data_def)
  with assms lf p l obtain T' where t: "np_stack ts = Inr T'"
    by (cases "np_stack ts") (auto simp: get_input_data_def)
  from assms lf p l r t have eq: "P = P'" "L = L'" "R = R'" "T = T'"
    by (simp_all add: get_input_data_def)
  note sp = stack_arrays_Inr [OF p] and sl = stack_arrays_Inr [OF l]
    and sr = stack_arrays_Inr [OF r] and st = np_stack_Inr [OF t]
  from sp sl sr st eq have same: "P = ps" "L = ls" "R = rs" "T = ts"
    by simp_all
  with lf show "load_frames input = Inr (P, L, R, T)"
    by simp
  from load_frames_Inr [OF lf] have "length ps = length input"
    by (rule conjunct1)
  moreover from sp have "ps \<noteq> []"
    by (elim conjE)
  ultimately show "input \<noteq> []"
    by (cases input) simp_all
  from sp same show "\<exists>n. \<forall>p \<in> set P. length p = n" by simp
  from sl same show "\<exists>n. \<forall>l \<in> set L. length l = n" by simp
  from sr same show "\<exists>n. \<forall>r \<in> set R. length r = n" by simp
qed

lemma and_then_Inl_iff:
  "and_then m f = Inl e \<longleftrightarrow> m = Inl e \<or> (\<exists>x. m = Inr x \<and> f x = Inl e)"
  by (cases m) auto

lemma ToQuaternion_Inl: "ToQuaternion a = Inl e \<Longrightarrow> e = ValueError"
  by (cases a) (auto simp: ToQuaternion_Rows ToQuaternion_Vec3 split: if_splits)

lemma concatenate_flatten_Inl: "concatenate_flatten a b = Inl e \<Longrightarrow> e = ValueError"
  by (cases a; cases b) auto

lemma load_frame_Inl: "load_frame npz = Inl e \<Longrightarrow> e = ValueError"
  by (auto simp: load_frame_def and_then_Inl_iff
      dest: ToQuaternion_Inl concatenate_flatten_Inl)

lemma load_frames_Inl: "load_frames input = Inl e \<Longrightarrow> e = ValueError"
  by (induction input arbitrary: e)
    (auto simp: and_then_Inl_iff dest: load_frame_Inl)

lemma stack_arrays_Inl: "stack_arrays xs = Inl e \<Longrightarrow> e = ValueError"
  by (auto simp: stack_arrays_def split: if_splits)

lemma np_stack_Inl: "np_stack xs = Inl e \<Longrightarrow> e = ValueError"
  by (auto simp: np_stack_def split: if_splits)

lemma get_input_data_Inl: "get_input_data input = Inl e \<Longrightarrow> e = ValueError"
  by (auto simp: get_input_data_def and_then_Inl_iff
      dest: load_frames_Inl stack_arrays_Inl np_stack_Inl)

lemma length_flatten_map:
  "length (concat (map (quat_components \<circ> f) vs)) = 4 * length vs"
  by (induction vs) (auto simp: length_flatten [of "[q]" for q, simplified])

lemma load_frame_well_shaped:
  assumes "well_shaped npz"
  shows "\<exists>rot lh rh. load_frame npz = Inr (rot, lh, rh, transl npz) \<and>
           length rot = 88 \<and> length lh = 15 \<and> length rh = 15"
proof -
  from assms obtain g b l r where f: "global_orient npz = Rows g" "body_pose npz = Rows b"
    "left_hand_pose npz = Rows l" "right_hand_pose npz = Rows r"
    and n: "g \<noteq> []" "b \<noteq> []" "length g + length b = 22" "length l = 15" "length r = 15"
    by (auto simp: well_shaped_def split: rotvec_array.splits)
  from n have ne: "l \<noteq> []" "r \<noteq> []"
    by auto
  show ?thesis
    using f n ne
    by (simp add: load_frame_def ToQuaternion_Rows np_matmul_def length_flatten_map)
qed

lemma sample_frame_well_shaped: "well_shaped (sample_frame t)"
  by (simp add: well_shaped_def sample_frame_def)

lemma load_frames_well_shaped:
  "\<forall>npz \<in> set input. well_shaped npz \<Longrightarrow> \<exists>P L R T. load_frames input = Inr (P, L, R, T)"
proof (induction input)
  case Nil
  then show ?case by simp
next
  case (Cons npz rest)
  then obtain P L R T where tl: "load_frames rest = Inr (P, L, R, T)"
    by auto
  from Cons.prems have "well_shaped npz"
    by simp
  then obtain rot lh rh where "load_frame npz = Inr (rot, lh, rh, transl npz)"
    using load_frame_well_shaped by blast
  with tl show ?case
    by simp
qed

lemma data_shapes:
  assumes lf: "load_frames input = Inr (P, L, R, T)"
    and ws: "\<forall>npz \<in> set input. well_shaped npz"
    and j: "j < length input"
  shows "length (P ! j) = 88 \<and> length (L ! j) = 15 \<and> length (R ! j) = 15 \<and>
         T ! j = transl (input ! j)"
proof -
  from load_frames_Inr [OF lf] j
  have a: "load_frame (input ! j) = Inr (P ! j, L ! j, R ! j, T ! j)"
    by simp
  from ws j have "well_shaped (input ! j)"
    by simp
  from load_frame_well_shaped [OF this] a show ?thesis
    by auto
qed

lemma stack_arrays_same:
  assumes "xs \<noteq> []" and "\<forall>x \<in> set xs. length x = n"
  shows "stack_arrays xs = Inr xs"
proof -
  from assms have "hd xs \<in> set xs"
    by simp
  with assms(2) have "length (hd xs) = n"
    by blast
  with assms(2) have "list_all (\<lambda>x. length x = length (hd xs)) xs"
    by (simp add: list_all_iff)
  with assms(1) show ?thesis
    by (simp add: stack_arrays_def)
qed

lemma get_input_data_well_shaped:
  assumes ne: "input \<noteq> []" and ws: "\<forall>npz \<in> set input. well_shaped npz"
  shows "\<exists>P L R T. get_input_data input = Inr (P, L, R, T)"
proof -
  from load_frames_well_shaped [OF ws] obtain P L R T
    where lf: "load_frames input = Inr (P, L, R, T)"
    by blast
  note len = load_frames_Inr [OF lf]
  have ds: "length (P ! j) = 88 \<and> length (L ! j) = 15 \<and> length (R ! j) = 15"
    if "j < length input" for j
    using data_shapes [OF lf ws that] by simp
  from len ds have "\<forall>x \<in> set P. length x = 88"
    by (metis in_set_conv_nth)
  moreover from len ds have "\<forall>x \<in> set L. length x = 15"
    by (metis in_set_conv_nth)
  moreover from len ds have "\<forall>x \<in> set R. length x = 15"
    by (metis in_set_conv_nth)
  moreover from len ne have "P \<noteq> []" "L \<noteq> []" "R \<noteq> []" "T \<noteq> []"
    by auto
  ultimately have "stack_arrays P = Inr P" "stack_arrays L = Inr L" "stack_arrays R = Inr R"
    "np_stack T = Inr T"
    using stack_arrays_same [of P 88] stack_arrays_same [of L 15] stack_arrays_same [of R 15]
    by (simp_all add: np_stack_def)
  with lf have "get_input_data input = Inr (P, L, R, T)"
    by (simp add: get_input_data_def)
  then show ?thesis
    by blast
qed

text \<open>
  Claim C9. For every file, the quaternions of both hands are converted from the raw
  hand vectors with their third component negated, which is the product with the matrix
  \<open>fix_coor = diag(1, 1, -1)\<close>, the same for the left and the right hand. The body
  quaternions are converted from the raw vectors of global orientation and body pose, and
  the translation is the raw \<open>transl\<close>.
\<close>

theorem hand_mirror:
  assumes "get_input_data input = Inr (poses, lhposes, rhposes, trans_v)"
    and "j < length input"
  shows "lhposes ! j = map (\<lambda>(x, y, z). to_quaternion (Rodrigues (x, y, - z)))
                         (vectors (left_hand_pose (input ! j))) \<and>
         rhposes ! j = map (\<lambda>(x, y, z). to_quaternion (Rodrigues (x, y, - z)))
                         (vectors (right_hand_pose (input ! j))) \<and>
         poses ! j = concat (map quat_components (map (\<lambda>v. to_quaternion (Rodrigues v))
                         (vectors (global_orient (input ! j)) @
                          vectors (body_pose (input ! j))))) \<and>
         trans_v ! j = transl (input ! j) \<and>
         (\<forall>x y z. vec_matmul (x, y, z) fix_coor = (x, y, - z))"
proof -
  from get_input_data_Inr(1) [OF assms(1)]
  have lf: "load_frames input = Inr (poses, lhposes, rhposes, trans_v)" .
  from load_frames_Inr [OF lf] assms(2)
  have a: "load_frame (input ! j) = Inr (poses ! j, lhposes ! j, rhposes ! j, trans_v ! j)"
    by simp
  have m: "(\<lambda>v. to_quaternion (Rodrigues (vec_matmul v fix_coor))) =
           (\<lambda>(x, y, z). to_quaternion (Rodrigues (x, y, - z)))"
    by (auto simp: vec_matmul_fix_coor)
  from load_frame_Inr [OF a] show ?thesis
    by (simp add: m vec_matmul_fix_coor)
qed

theorem hand_mirror_witness:
  "\<exists>poses lhposes rhposes trans_v.
     get_input_data [sample_frame (2, - 1, 5)] = Inr (poses, lhposes, rhposes, trans_v) \<and>
     (0::nat) < length [sample_frame (2, - 1, 5)] \<and>
     lhposes ! 0 = replicate 15 (to_quaternion (Rodrigues (0, 0, - 1))) \<and>
     rhposes ! 0 = replicate 15 (to_quaternion (Rodrigues (0, 0, 0))) \<and>
     trans_v ! 0 = (2, - 1, 5)"
proof -
  have "[sample_frame (2, - 1, 5)] \<noteq> []"
    and "\<forall>npz \<in> set [sample_frame (2, - 1, 5)]. well_shaped npz"
    by (simp_all add: sample_frame_well_shaped)
  then obtain P L R T where g: "get_input_data [sample_frame (2, - 1, 5)] = Inr (P, L, R, T)"
    using get_input_data_well_shaped by blast
  have j: "(0::nat) < length [sample_frame (2, - 1, 5)]"
    by simp
  from hand_mirror [OF g j]
  have "L ! 0 = replicate 15 (to_quaternion (Rodrigues (0, 0, - 1)))"
    and "R ! 0 = replicate 15 (to_quaternion (Rodrigues (0, 0, 0)))"
    and "T ! 0 = (2, - 1, 5)"
    by (simp_all add: sample_frame_def map_replicate del: replicate.simps replicate_Suc)
  with g j show ?thesis
    by blast
qed

subsection \<open>The loop of process_poses\<close>

lemma np_index_nat: "i < length xs \<Longrightarrow> np_index xs (int i) = Inr (xs ! i)"
  by (simp add: np_index_def)

lemma loop_body_ok:
  assumes i: "i < length poses"
    and len: "length lhposes = length poses" "length rhposes = length poses"
      "length trans_v = length poses"
    and shp: "length (poses ! i) = 88" "length (lhposes ! i) = 15" "length (rhposes ! i) = 15"
  shows "loop_body poses lhposes rhposes trans_v start_origin pelvis_position (int i) f
           offset sc =
         Inr (captured_offset start_origin trans_v i offset,
              sc\<lparr>keyframes := keyframes sc @
                   frame_keyframes f (poses ! i) (lhposes ! i) (rhposes ! i)
                     (vec_sub (trans_v ! i) (captured_offset start_origin trans_v i offset))
                     pelvis_position\<rparr>)"
proof -
  from i len have ix: "np_index poses (int i) = Inr (poses ! i)"
    "np_index lhposes (int i) = Inr (lhposes ! i)"
    "np_index rhposes (int i) = Inr (rhposes ! i)"
    "np_index trans_v (int i) = Inr (trans_v ! i)"
    by (simp_all add: np_index_nat)
  have off: "(if start_origin \<and> int i = 0
               then and_then (np_index trans_v (int i)) (\<lambda>t. Inr (fst t, fst (snd t), 0))
               else Inr offset) = Inr (captured_offset start_origin trans_v i offset)"
    using ix(4) by (auto simp: captured_offset_def)
  show ?thesis
    unfolding loop_body_def off
    by (simp add: ix process_pose_ok [OF shp])
qed

lemma count_step:
  assumes "i < N" and "0 < s"
  shows "(N - i + s - 1) div s = Suc ((N - (i + s) + s - 1) div s)"
proof (cases "i + s \<le> N")
  case True
  define x where "x = N - (i + s) + s - 1"
  from True assms have "N - i + s - 1 = x + s"
    unfolding x_def by linarith
  moreover from assms(2) have "(x + s) div s = Suc (x div s)"
    by simp
  ultimately show ?thesis
    unfolding x_def by simp
next
  case False
  define y where "y = N - i + s - 1"
  from False assms have y: "s \<le> y" "y < 2 * s"
    unfolding y_def by linarith+
  then have "y div s = 1"
    by (intro div_nat_eqI) simp_all
  moreover from False assms(2) have "(N - (i + s) + s - 1) div s = 0"
    by simp
  ultimately show ?thesis
    unfolding y_def by simp
qed

lemma captured_offset_later: "0 < i \<Longrightarrow> captured_offset so tr i off = off"
  by (simp add: captured_offset_def)

lemma process_loop_closed:
  assumes s: "0 < s"
    and len: "length lhposes = length poses" "length rhposes = length poses"
      "length trans_v = length poses"
    and shp: "\<forall>j < length poses. length (poses ! j) = 88 \<and> length (lhposes ! j) = 15 \<and>
                length (rhposes ! j) = 15"
  shows "process_loop poses lhposes rhposes trans_v start_origin pelvis_position (int s)
           (int i) f offset sc =
         Some (sc\<lparr>keyframes := keyframes sc @ concat (map (\<lambda>k.
                  frame_keyframes (f + int k) (poses ! (i + k * s)) (lhposes ! (i + k * s))
                    (rhposes ! (i + k * s))
                    (vec_sub (trans_v ! (i + k * s))
                       (captured_offset start_origin trans_v i offset))
                    pelvis_position) [0..<(length poses - i + s - 1) div s])\<rparr>,
               Inr (f + int ((length poses - i + s - 1) div s)))"
proof (induction "length poses - i" arbitrary: i f offset sc rule: less_induct)
  case less
  let ?N = "length poses"
  let ?off = "captured_offset start_origin trans_v i offset"
  show ?case
  proof (cases "i < ?N")
    case False
    then have "(?N - i + s - 1) div s = 0"
      using s by simp
    moreover from False have "process_loop poses lhposes rhposes trans_v start_origin
        pelvis_position (int s) (int i) f offset sc = Some (sc, Inr f)"
      by (subst process_loop.simps) simp
    ultimately show ?thesis
      by simp
  next
    case True
    let ?sc = "sc\<lparr>keyframes := keyframes sc @
                   frame_keyframes f (poses ! i) (lhposes ! i) (rhposes ! i)
                     (vec_sub (trans_v ! i) ?off) pelvis_position\<rparr>"
    from True shp have shi: "length (poses ! i) = 88" "length (lhposes ! i) = 15"
      "length (rhposes ! i) = 15"
      by simp_all
    have body: "loop_body poses lhposes rhposes trans_v start_origin pelvis_position (int i) f
           offset sc = Inr (?off, ?sc)"
      by (rule loop_body_ok [OF True len shi])
    from True s have dec: "?N - (i + s) < ?N - i"
      by simp
    have step: "process_loop poses lhposes rhposes trans_v start_origin pelvis_position (int s)
        (int i) f offset sc =
      process_loop poses lhposes rhposes trans_v start_origin pelvis_position (int s)
        (int (i + s)) (f + 1) ?off ?sc"
      using True by (subst process_loop.simps) (simp add: body)
    have later: "captured_offset start_origin trans_v (i + s) ?off = ?off"
      using s by (simp add: captured_offset_later)
    note ih = less [OF dec, of "f + 1" ?off ?sc, unfolded later]
    let ?n = "(?N - (i + s) + s - 1) div s"
    have cnt: "(?N - i + s - 1) div s = Suc ?n"
      by (rule count_step [OF True s])
    show ?thesis
      unfolding step ih cnt
      by (simp add: map_upt_Suc add.assoc add.left_commute del: upt_Suc)
  qed
qed

lemma process_poses_closed:
  assumes g: "get_input_data input = Inr (P, L, R, T)"
    and ws: "\<forall>npz \<in> set input. well_shaped npz"
    and fps: "fps' = (if fps_target > fps_source then fps_source else fps_target)" "fps' \<noteq> 0"
    and s: "int_of_quotient fps_source fps' = int s" "0 < s"
  shows "process_poses input pelvis_position fps_source fps_target start_origin sc =
         Some (sc\<lparr>fps := fps',
                  frame_end := int_of_quotient (int (length input)) (int s),
                  keyframes := keyframes sc @ concat (map (\<lambda>k.
                    frame_keyframes (1 + int k) (P ! (k * s)) (L ! (k * s)) (R ! (k * s))
                      (vec_sub (T ! (k * s)) (captured_offset start_origin T 0 (0, 0, 0)))
                      pelvis_position) [0..<(length input + s - 1) div s])\<rparr>,
               Inr (1 + int ((length input + s - 1) div s)))"
proof -
  note lf = get_input_data_Inr(1) [OF g]
  note len = load_frames_Inr [OF lf]
  from len have l: "length L = length P" "length R = length P" "length T = length P"
    and n: "length P = length input"
    by simp_all
  have shp: "\<forall>j < length P. length (P ! j) = 88 \<and> length (L ! j) = 15 \<and> length (R ! j) = 15"
    using data_shapes [OF lf ws] n by simp
  let ?sc = "(setup_scene fps' sc)\<lparr>frame_end := int_of_quotient (int (length P)) (int s)\<rparr>"
  have "process_poses input pelvis_position fps_source fps_target start_origin sc =
        process_loop P L R T start_origin pelvis_position (int s) (int 0) 1 (0, 0, 0) ?sc"
    using fps s by (simp add: process_poses_def g Let_def)
  also have "\<dots> = Some (?sc\<lparr>keyframes := keyframes ?sc @ concat (map (\<lambda>k.
                  frame_keyframes (1 + int k) (P ! (0 + k * s)) (L ! (0 + k * s))
                    (R ! (0 + k * s))
                    (vec_sub (T ! (0 + k * s)) (captured_offset start_origin T 0 (0, 0, 0)))
                    pelvis_position) [0..<(length P - 0 + s - 1) div s])\<rparr>,
               Inr (1 + int ((length P - 0 + s - 1) div s)))"
    by (rule process_loop_closed [OF s(2) l shp])
  finally show ?thesis
    by (simp add: n setup_scene_def)
qed

lemma locations_append: "locations (xs @ ys) = locations xs @ locations ys"
  by (induction xs rule: locations.induct) simp_all

lemma locations_rotations: "locations (map (\<lambda>i. RotationKey (b i) f (q i)) ks) = []"
  by (induction ks) simp_all

lemma locations_frame_keyframes:
  "locations (frame_keyframes f pose lh rh t pelvis_position) =
     [(f, vec_sub (fst t, fst (snd t), 0) pelvis_position)]"
  by (simp add: frame_keyframes_def locations_append locations_rotations
      del: upt.simps upt_Suc)

lemma locations_concat:
  "locations (concat (map g ks)) = concat (map (\<lambda>k. locations (g k)) ks)"
  by (induction ks) (simp_all add: locations_append)

lemma key_frame_frame_keyframes:
  "key_frame ` set (frame_keyframes f pose lh rh t pelvis_position) = {f}"
  by (auto simp: frame_keyframes_def simp del: upt.simps upt_Suc)

lemma key_frame_concat:
  "key_frame ` set (concat (map (\<lambda>k. frame_keyframes (g k) (p k) (l k) (r k) (t k) pel) ks)) =
     g ` set ks"
proof -
  have "key_frame ` set (concat (map (\<lambda>k. frame_keyframes (g k) (p k) (l k) (r k) (t k) pel) ks))
     = (\<Union>k \<in> set ks. key_frame ` set (frame_keyframes (g k) (p k) (l k) (r k) (t k) pel))"
    by auto
  also have "\<dots> = (\<Union>k \<in> set ks. {g k})"
    by (simp only: key_frame_frame_keyframes)
  also have "\<dots> = g ` set ks"
    by auto
  finally show ?thesis .
qed

lemma stride_positive:
  assumes "0 < fps_source" and "0 < fps_target"
  shows "(if fps_target > fps_source then fps_source else fps_target) =
           min fps_target fps_source"
    and "min fps_target fps_source \<noteq> 0"
    and "int_of_quotient fps_source (min fps_target fps_source) =
           int (nat (fps_source div min fps_target fps_source))"
    and "0 < nat (fps_source div min fps_target fps_source)"
proof -
  let ?m = "min fps_target fps_source"
  from assms have m: "0 < ?m" "?m \<le> fps_source"
    by simp_all
  then have "0 < fps_source div ?m"
    by (simp only: pos_imp_zdiv_pos_iff)
  then show "0 < nat (fps_source div ?m)"
    by simp
  from m assms show "int_of_quotient fps_source ?m = int (nat (fps_source div ?m))"
    by (simp add: int_of_quotient_def pos_imp_zdiv_nonneg_iff)
  show "(if fps_target > fps_source then fps_source else fps_target) = ?m"
    by (simp add: min_def)
  from m(1) show "?m \<noteq> 0"
    by linarith
qed

lemma ceil_div:
  assumes "0 < s"
  shows "(N + s - 1) div s = (if N mod s = 0 then N div s else Suc (N div s))"
proof -
  define a where "a = s * (N div s)"
  have N: "N = a + N mod s"
    unfolding a_def by simp
  from assms have r: "N mod s < s"
    by simp
  show ?thesis
  proof (cases "N mod s = 0")
    case True
    with N assms have "s * (N div s) \<le> N + s - 1" and "N + s - 1 < s * Suc (N div s)"
      unfolding mult_Suc_right a_def [symmetric] by linarith+
    then have "(N + s - 1) div s = N div s"
      by (rule div_nat_eqI)
    with True show ?thesis
      by simp
  next
    case False
    with N r have "s * Suc (N div s) \<le> N + s - 1" and "N + s - 1 < s * Suc (Suc (N div s))"
      unfolding mult_Suc_right a_def [symmetric] by linarith+
    then have "(N + s - 1) div s = Suc (N div s)"
      by (rule div_nat_eqI)
    with False show ?thesis
      by simp
  qed
qed

lemma selected_indices:
  assumes "0 < s"
  shows "map (\<lambda>k. k * s) [0..<(N + s - 1) div s] = filter (\<lambda>j. j mod s = 0) [0..<N]"
proof (induction N)
  case 0
  with assms show ?case by simp
next
  case (Suc N)
  have next_count: "(Suc N + s - 1) div s = Suc (N div s)"
    using assms by simp
  show ?case
  proof (cases "N mod s = 0")
    case True
    then have "(N + s - 1) div s = N div s" and "N div s * s = N"
      using ceil_div [OF assms, of N] by auto
    with Suc True show ?thesis
      unfolding next_count by simp
  next
    case False
    then have "(N + s - 1) div s = Suc (N div s)"
      using ceil_div [OF assms, of N] by simp
    with Suc False show ?thesis
      unfolding next_count by simp
  qed
qed

subsection \<open>Resampling\<close>

lemma process_poses_positive:
  assumes pos: "0 < fps_source" "0 < fps_target"
    and g: "get_input_data input = Inr (P, L, R, T)"
    and ws: "\<forall>npz \<in> set input. well_shaped npz"
    and s: "s = nat (fps_source div min fps_target fps_source)"
  shows "process_poses input pelvis_position fps_source fps_target start_origin sc =
         Some (sc\<lparr>fps := min fps_target fps_source,
                  frame_end := int_of_quotient (int (length input)) (int s),
                  keyframes := keyframes sc @ concat (map (\<lambda>k.
                    frame_keyframes (1 + int k) (P ! (k * s)) (L ! (k * s)) (R ! (k * s))
                      (vec_sub (T ! (k * s)) (captured_offset start_origin T 0 (0, 0, 0)))
                      pelvis_position) [0..<(length input + s - 1) div s])\<rparr>,
               Inr (1 + int ((length input + s - 1) div s)))"
  unfolding s
  by (rule process_poses_closed [OF g ws stride_positive(1) [OF pos, symmetric]
        stride_positive(2) [OF pos] stride_positive(3) [OF pos] stride_positive(4) [OF pos]])

text \<open>
  Claim C1. For positive rates and a sequence of \<open>N \<ge> 1\<close> well-shaped files, the run uses
  the target rate \<open>min fps_target fps_source\<close> and the stride
  \<open>s = fps_source div min fps_target fps_source\<close>, which is at least 1. It returns, and
  the keyframes it inserts are those of the source indices \<open>0, s, 2s, \<dots>\<close> below \<open>N\<close>, one
  frame per index in this order: \<open>n = \<lceil>N / s\<rceil>\<close> frames, the frame for index \<open>k * s\<close>
  numbered \<open>k + 1\<close>, so that the frame numbers are exactly \<open>1, \<dots>, n\<close>.
\<close>

theorem resampler_frames:
  assumes "0 < fps_source" and "0 < fps_target"
    and "get_input_data input = Inr (poses, lhposes, rhposes, trans_v)"
    and "\<forall>npz \<in> set input. well_shaped npz"
  shows "let s = nat (fps_source div min fps_target fps_source);
             n = (length input + s - 1) div s
         in 1 \<le> length input \<and> 1 \<le> s \<and>
            map (\<lambda>k. k * s) [0..<n] = filter (\<lambda>j. j mod s = 0) [0..<length input] \<and>
            (\<exists>sc'. process_poses input pelvis_position fps_source fps_target start_origin sc =
                     Some (sc', Inr (1 + int n)) \<and>
                   fps sc' = min fps_target fps_source \<and>
                   keyframes sc' = keyframes sc @ concat (map (\<lambda>k.
                     frame_keyframes (1 + int k) (poses ! (k * s)) (lhposes ! (k * s))
                       (rhposes ! (k * s))
                       (vec_sub (trans_v ! (k * s))
                          (captured_offset start_origin trans_v 0 (0, 0, 0)))
                       pelvis_position) [0..<n]) \<and>
                   key_frame ` set (drop (length (keyframes sc)) (keyframes sc')) =
                     {1..int n})"
proof -
  define s where "s = nat (fps_source div min fps_target fps_source)"
  define n where "n = (length input + s - 1) div s"
  have spos: "0 < s"
    unfolding s_def by (rule stride_positive(4) [OF assms(1,2)])
  have ne: "1 \<le> length input"
    using get_input_data_Inr(2) [OF assms(3)] by (cases input) simp_all
  have sel: "map (\<lambda>k. k * s) [0..<n] = filter (\<lambda>j. j mod s = 0) [0..<length input]"
    unfolding n_def by (rule selected_indices [OF spos])
  let ?new = "concat (map (\<lambda>k.
                     frame_keyframes (1 + int k) (poses ! (k * s)) (lhposes ! (k * s))
                       (rhposes ! (k * s))
                       (vec_sub (trans_v ! (k * s))
                          (captured_offset start_origin trans_v 0 (0, 0, 0)))
                       pelvis_position) [0..<n])"
  let ?sc = "sc\<lparr>fps := min fps_target fps_source,
                  frame_end := int_of_quotient (int (length input)) (int s),
                  keyframes := keyframes sc @ ?new\<rparr>"
  have run: "process_poses input pelvis_position fps_source fps_target start_origin sc =
             Some (?sc, Inr (1 + int n))"
    unfolding n_def by (rule process_poses_positive [OF assms s_def])
  have "key_frame ` set ?new = (\<lambda>k. 1 + int k) ` set [0..<n]"
    by (rule key_frame_concat)
  also have "\<dots> = {1..int n}"
  proof (intro set_eqI iffI)
    fix f assume "f \<in> (\<lambda>k. 1 + int k) ` set [0..<n]"
    then show "f \<in> {1..int n}" by auto
  next
    fix f assume f: "f \<in> {1..int n}"
    then have "f = 1 + int (nat (f - 1))" and "nat (f - 1) < n"
      by auto
    then show "f \<in> (\<lambda>k. 1 + int k) ` set [0..<n]"
      by (metis atLeastLessThan_iff imageI le0 set_upt)
  qed
  finally have fr: "key_frame ` set (drop (length (keyframes sc)) (keyframes ?sc)) = {1..int n}"
    by simp
  have "keyframes ?sc = keyframes sc @ ?new" and "fps ?sc = min fps_target fps_source"
    by simp_all
  with run fr have "\<exists>sc'. process_poses input pelvis_position fps_source fps_target
        start_origin sc = Some (sc', Inr (1 + int n)) \<and>
      fps sc' = min fps_target fps_source \<and>
      keyframes sc' = keyframes sc @ ?new \<and>
      key_frame ` set (drop (length (keyframes sc)) (keyframes sc')) = {1..int n}"
    by blast
  with ne spos sel show ?thesis
    unfolding Let_def s_def [symmetric] n_def [symmetric] by simp
qed

theorem resampler_frames_witness:
  "\<exists>poses lhposes rhposes trans_v.
     (0::int) < 30 \<and> (0::int) < 10 \<and>
     get_input_data (replicate 100 (sample_frame (0, 0, 0))) =
       Inr (poses, lhposes, rhposes, trans_v) \<and>
     list_all well_shaped (replicate 100 (sample_frame (0, 0, 0))) \<and>
     nat (30 div min 10 30) = 3 \<and>
     (\<exists>sc'. process_poses (replicate 100 (sample_frame (0, 0, 0))) (0, 0, 1) 30 10 True
              \<lparr>fps = 24, frame_end = 250, keyframes = []\<rparr> = Some (sc', Inr 35) \<and>
            fps sc' = 10 \<and> key_frame ` set (keyframes sc') = {1..34})"
proof -
  let ?input = "replicate 100 (sample_frame (0, 0, 0))"
  let ?sc = "\<lparr>fps = 24, frame_end = 250, keyframes = []\<rparr>"
  have ws: "\<forall>npz \<in> set ?input. well_shaped npz"
    by (simp add: sample_frame_well_shaped)
  have "?input \<noteq> []"
    by simp
  then obtain P L R T where g: "get_input_data ?input = Inr (P, L, R, T)"
    using get_input_data_well_shaped [OF _ ws] by blast
  have pos: "(0::int) < 30" "(0::int) < 10"
    by simp_all
  have s: "nat (30 div min 10 30) = 3"
    by simp
  have n: "(length ?input + 3 - 1) div 3 = 34"
    by simp
  from resampler_frames [OF pos g ws, of "(0, 0, 1)" True ?sc]
  have "\<exists>sc'. process_poses ?input (0, 0, 1) 30 10 True ?sc = Some (sc', Inr 35) \<and>
            fps sc' = 10 \<and> key_frame ` set (keyframes sc') = {1..34}"
    unfolding Let_def s n by auto
  moreover from ws have "list_all well_shaped ?input"
    unfolding list_all_iff .
  ultimately show ?thesis
    using pos g s by blast
qed

subsection \<open>Root translation\<close>

lemma transl_sample_frame: "transl (sample_frame t) = t"
  by (simp add: sample_frame_def)

lemma frame_numbers_closed:
  "key_frame ` set (concat (map (\<lambda>k. frame_keyframes (1 + int k) (p k) (l k) (r k) (t k) pel)
      [0..<n])) = {1..int n}"
proof -
  have "key_frame ` set (concat (map (\<lambda>k. frame_keyframes (1 + int k) (p k) (l k) (r k) (t k) pel)
      [0..<n])) = (\<lambda>k. 1 + int k) ` set [0..<n]"
    by (rule key_frame_concat)
  also have "\<dots> = {1..int n}"
  proof (intro set_eqI iffI)
    fix f assume "f \<in> (\<lambda>k. 1 + int k) ` set [0..<n]"
    then show "f \<in> {1..int n}" by auto
  next
    fix f assume f: "f \<in> {1..int n}"
    then have "f = 1 + int (nat (f - 1))" and "nat (f - 1) < n"
      by auto
    then show "f \<in> (\<lambda>k. 1 + int k) ` set [0..<n]"
      by (metis atLeastLessThan_iff imageI le0 set_upt)
  qed
  finally show ?thesis .
qed

lemma selected_index_bound:
  assumes "0 < (s::nat)" and "k < (N + s - 1) div s"
  shows "k * s < N"
proof -
  from assms(2) have "k \<in> set [0..<(N + s - 1) div s]"
    by simp
  then have "k * s \<in> set (map (\<lambda>k. k * s) [0..<(N + s - 1) div s])"
    unfolding set_map by (rule imageI)
  then have "k * s \<in> set (filter (\<lambda>j. j mod s = 0) [0..<N])"
    by (simp only: selected_indices [OF assms(1)])
  then show ?thesis
    by simp
qed

lemma vec_sub_components:
  "fst (vec_sub u v) = fst u - fst v" "fst (snd (vec_sub u v)) = fst (snd u) - fst (snd v)"
  by (cases u; cases v; simp)+

text \<open>
  Claim C3. With origin centering enabled, one offset \<open>(t\<^sub>0.x, t\<^sub>0.y, 0)\<close> is taken from the
  translation \<open>t\<^sub>0\<close> of source index 0, the first selected index, and is subtracted from
  the translation of every emitted frame, the first included: the location keyed in
  frame \<open>k + 1\<close> is \<open>(t.x - t\<^sub>0.x, t.y - t\<^sub>0.y, 0) - pelvis_position\<close> for the translation
  \<open>t\<close> of source index \<open>k * s\<close>, and in the first frame it is
  \<open>(0, 0, 0) - pelvis_position\<close>. With origin centering disabled the subtracted offset is
  \<open>(0, 0, 0)\<close> in every frame.
\<close>

theorem origin_centering:
  assumes "0 < fps_source" and "0 < fps_target"
    and "input \<noteq> []" and "\<forall>npz \<in> set input. well_shaped npz"
  shows "let s = nat (fps_source div min fps_target fps_source);
             n = (length input + s - 1) div s;
             offset = (if start_origin
                       then (fst (transl (input ! 0)), fst (snd (transl (input ! 0))), 0)
                       else (0, 0, 0)) :: vec3
         in \<exists>sc' r. process_poses input pelvis_position fps_source fps_target start_origin sc =
                      Some (sc', Inr r) \<and>
              locations (drop (length (keyframes sc)) (keyframes sc')) =
                map (\<lambda>k. (1 + int k,
                          vec_sub (fst (transl (input ! (k * s))) - fst offset,
                                   fst (snd (transl (input ! (k * s)))) - fst (snd offset), 0)
                            pelvis_position)) [0..<n] \<and>
              (start_origin \<longrightarrow>
                 hd (locations (drop (length (keyframes sc)) (keyframes sc'))) =
                   (1, vec_sub (0, 0, 0) pelvis_position))"
proof -
  define s where "s = nat (fps_source div min fps_target fps_source)"
  define n where "n = (length input + s - 1) div s"
  define offset :: vec3 where "offset = (if start_origin
                       then (fst (transl (input ! 0)), fst (snd (transl (input ! 0))), 0)
                       else (0, 0, 0))"
  have spos: "0 < s"
    unfolding s_def by (rule stride_positive(4) [OF assms(1,2)])
  from get_input_data_well_shaped [OF assms(3,4)] obtain P L R T
    where g: "get_input_data input = Inr (P, L, R, T)"
    by blast
  note lf = get_input_data_Inr(1) [OF g]
  have T: "T ! j = transl (input ! j)" if "j < length input" for j
    using data_shapes [OF lf assms(4) that] by simp
  from assms(3) have N: "0 < length input"
    by simp
  have off: "captured_offset start_origin T 0 (0, 0, 0) = offset"
    unfolding offset_def captured_offset_def by (simp add: T [OF N])
  from N spos have "s \<le> length input + s - 1"
    by linarith
  with spos have npos: "0 < n"
    unfolding n_def by (simp only: div_greater_zero_iff)
  let ?new = "concat (map (\<lambda>k.
                     frame_keyframes (1 + int k) (P ! (k * s)) (L ! (k * s)) (R ! (k * s))
                       (vec_sub (T ! (k * s)) (captured_offset start_origin T 0 (0, 0, 0)))
                       pelvis_position) [0..<n])"
  let ?sc = "sc\<lparr>fps := min fps_target fps_source,
                  frame_end := int_of_quotient (int (length input)) (int s),
                  keyframes := keyframes sc @ ?new\<rparr>"
  let ?locs = "map (\<lambda>k. (1 + int k,
                          vec_sub (fst (transl (input ! (k * s))) - fst offset,
                                   fst (snd (transl (input ! (k * s)))) - fst (snd offset), 0)
                            pelvis_position)) [0..<n]"
  have run: "process_poses input pelvis_position fps_source fps_target start_origin sc =
             Some (?sc, Inr (1 + int n))"
    unfolding n_def by (rule process_poses_positive [OF assms(1,2) g assms(4) s_def])
  have "locations ?new = ?locs"
    unfolding locations_concat locations_frame_keyframes off
  proof -
    have "map (\<lambda>k. [(1 + int k,
               vec_sub (fst (vec_sub (T ! (k * s)) offset),
                        fst (snd (vec_sub (T ! (k * s)) offset)), 0) pelvis_position)])
            [0..<n] = map (\<lambda>k. [(1 + int k,
                          vec_sub (fst (transl (input ! (k * s))) - fst offset,
                                   fst (snd (transl (input ! (k * s)))) - fst (snd offset), 0)
                            pelvis_position)]) [0..<n]"
    proof (rule map_cong [OF refl])
      fix k assume "k \<in> set [0..<n]"
      then have "k * s < length input"
        unfolding n_def using selected_index_bound [OF spos] by simp
      then show "[(1 + int k,
               vec_sub (fst (vec_sub (T ! (k * s)) offset),
                        fst (snd (vec_sub (T ! (k * s)) offset)), 0) pelvis_position)] =
            [(1 + int k,
                          vec_sub (fst (transl (input ! (k * s))) - fst offset,
                                   fst (snd (transl (input ! (k * s)))) - fst (snd offset), 0)
                            pelvis_position)]"
        by (simp add: T vec_sub_components)
    qed
    then show "concat (map (\<lambda>k. [(1 + int k,
               vec_sub (fst (vec_sub (T ! (k * s)) offset),
                        fst (snd (vec_sub (T ! (k * s)) offset)), 0) pelvis_position)])
            [0..<n]) = ?locs"
      by (simp add: concat_map_singleton del: upt.simps upt_Suc)
  qed
  then have locs: "locations (drop (length (keyframes sc)) (keyframes ?sc)) = ?locs"
    by simp
  have "start_origin \<longrightarrow> hd ?locs = (1, vec_sub (0, 0, 0) pelvis_position)"
    using npos by (simp add: hd_map upt_conv_Cons offset_def del: upt.simps upt_Suc)
  then have first: "start_origin \<longrightarrow>
      hd (locations (drop (length (keyframes sc)) (keyframes ?sc))) =
        (1, vec_sub (0, 0, 0) pelvis_position)"
    unfolding locs .
  have "\<exists>sc' r. process_poses input pelvis_position fps_source fps_target start_origin sc =
                      Some (sc', Inr r) \<and>
              locations (drop (length (keyframes sc)) (keyframes sc')) = ?locs \<and>
              (start_origin \<longrightarrow>
                 hd (locations (drop (length (keyframes sc)) (keyframes sc'))) =
                   (1, vec_sub (0, 0, 0) pelvis_position))"
    using run locs first by blast
  then show ?thesis
    unfolding Let_def s_def [symmetric] n_def [symmetric] offset_def [symmetric] .
qed

theorem origin_centering_witness:
  "(0::int) < 30 \<and>
   [sample_frame (2, - 1, 5), sample_frame (5 / 2, - 4 / 5, 26 / 5)] \<noteq> [] \<and>
   list_all well_shaped [sample_frame (2, - 1, 5), sample_frame (5 / 2, - 4 / 5, 26 / 5)] \<and>
   (\<exists>sc' r. process_poses [sample_frame (2, - 1, 5), sample_frame (5 / 2, - 4 / 5, 26 / 5)]
               (0, 0, 1) 30 30 True \<lparr>fps = 24, frame_end = 250, keyframes = []\<rparr> =
             Some (sc', Inr r) \<and>
           locations (keyframes sc') = [(1, (0, 0, - 1)), (2, (1 / 2, 1 / 5, - 1))])"
proof -
  let ?input = "[sample_frame (2, - 1, 5), sample_frame (5 / 2, - 4 / 5, 26 / 5)]"
  let ?sc = "\<lparr>fps = 24, frame_end = 250, keyframes = []\<rparr>"
  have pos: "(0::int) < 30"
    by simp
  have ne: "?input \<noteq> []"
    by simp
  have ws: "\<forall>npz \<in> set ?input. well_shaped npz"
    by (simp add: sample_frame_well_shaped)
  have s: "nat (30 div min 30 30) = 1"
    by simp
  have n: "(length ?input + 1 - 1) div 1 = 2"
    by simp
  have two: "[0..<2] = [0, 1]"
    by (simp add: upt_rec)
  from origin_centering [OF pos pos ne ws, of True "(0, 0, 1)" ?sc]
  have "\<exists>sc' r. process_poses ?input (0, 0, 1) 30 30 True ?sc = Some (sc', Inr r) \<and>
           locations (keyframes sc') = [(1, (0, 0, - 1)), (2, (1 / 2, 1 / 5, - 1))]"
    unfolding Let_def s n two by (simp add: transl_sample_frame, blast)
  moreover from ws have "list_all well_shaped ?input"
    unfolding list_all_iff .
  ultimately show ?thesis
    using pos ne by blast
qed

subsection \<open>Counting location keyframes\<close>

lemma length_locations_closed:
  "length (locations (concat (map (\<lambda>k. frame_keyframes (g k) (p k) (l k) (r k) (t k) pel)
      [0..<n]))) = n"
  unfolding locations_concat locations_frame_keyframes
  by (simp add: concat_map_singleton del: upt.simps upt_Suc)

subsection \<open>Termination and the vertical lock\<close>

lemma process_pose_Inr:
  assumes "process_pose f pose lh rh t pelvis_position sc = Inr sc'"
  shows "sc' = sc\<lparr>keyframes := keyframes sc @ frame_keyframes f pose lh rh t pelvis_position\<rparr>"
proof (cases "length pose = 88 \<and> length lh = 15 \<and> length rh = 15")
  case True
  then have "process_pose f pose lh rh t pelvis_position sc =
      Inr (sc\<lparr>keyframes := keyframes sc @ frame_keyframes f pose lh rh t pelvis_position\<rparr>)"
    by (intro process_pose_ok) simp_all
  with assms show ?thesis
    by simp
next
  case False
  then have "process_pose f pose lh rh t pelvis_position sc = Inl ValueError"
    by (intro process_pose_fails) auto
  with assms show ?thesis
    by simp
qed

lemma loop_body_Inr:
  assumes "loop_body poses lhposes rhposes trans_v start_origin pelvis_position i f offset sc =
             Inr (offset', sc')"
  shows "\<exists>pose lh rh t. sc' = sc\<lparr>keyframes := keyframes sc @
            frame_keyframes f pose lh rh t pelvis_position\<rparr>"
proof -
  from assms obtain pose lh rh t where
    "process_pose f pose lh rh t pelvis_position sc = Inr sc'"
    unfolding loop_body_def and_then_Inr_iff by blast
  from process_pose_Inr [OF this] show ?thesis
    by blast
qed







lemma process_poses_Inr:
  assumes "get_input_data input = Inr (P, L, R, T)"
    and "t = (if fps_target > fps_source then fps_source else fps_target)"
    and "s = int_of_quotient fps_source t"
  shows "process_poses input pelvis_position fps_source fps_target start_origin sc =
           (if t = 0 \<or> s = 0 then Some (setup_scene t sc, Inl ZeroDivisionError)
            else process_loop P L R T start_origin pelvis_position s 0 1 (0, 0, 0)
                   ((setup_scene t sc)\<lparr>frame_end := int_of_quotient (int (length P)) s\<rparr>))"
  unfolding assms(2,3) process_poses_def assms(1) by (simp add: Let_def)






subsection \<open>Mis-shaped files and non-positive rates\<close>

lemma length_quat_components: "length (quat_components q) = 4"
  by (cases q) simp

lemma load_frame_bad_shape:
  assumes "load_frame npz = Inr (p, l, r, t)" and "\<not> well_shaped npz"
  shows "length p \<noteq> 88 \<or> length l \<noteq> 15 \<or> length r \<noteq> 15"
  using assms
  by (cases "global_orient npz"; cases "body_pose npz"; cases "left_hand_pose npz";
      cases "right_hand_pose npz")
    (auto simp: load_frame_def well_shaped_def ToQuaternion_Rows ToQuaternion_Vec3
      np_matmul_def length_flatten_map length_quat_components split: if_splits)

lemma loop_body_first_fails:
  assumes len: "0 < length poses" "length lhposes = length poses"
      "length rhposes = length poses" "length trans_v = length poses"
    and bad: "length (poses ! 0) \<noteq> 88 \<or> length (lhposes ! 0) \<noteq> 15 \<or>
              length (rhposes ! 0) \<noteq> 15"
  shows "loop_body poses lhposes rhposes trans_v start_origin pelvis_position 0 f offset sc =
           Inl ValueError"
proof -
  from len have ix: "np_index poses 0 = Inr (poses ! 0)"
    "np_index lhposes 0 = Inr (lhposes ! 0)"
    "np_index rhposes 0 = Inr (rhposes ! 0)"
    "np_index trans_v 0 = Inr (trans_v ! 0)"
    by (simp_all add: np_index_def)
  show ?thesis
    unfolding loop_body_def ix
    by (simp add: process_pose_fails [OF bad])
qed

lemma process_loop_first_fails:
  assumes len: "0 < length poses" "length lhposes = length poses"
      "length rhposes = length poses" "length trans_v = length poses"
    and bad: "length (poses ! 0) \<noteq> 88 \<or> length (lhposes ! 0) \<noteq> 15 \<or>
              length (rhposes ! 0) \<noteq> 15"
  shows "process_loop poses lhposes rhposes trans_v start_origin pelvis_position sample_rate
           0 f offset sc = Some (sc, Inl ValueError)"
  using len(1)
  by (subst process_loop.simps) (simp add: loop_body_first_fails [OF len bad])

lemma uniform_nth:
  assumes "\<exists>n. \<forall>x \<in> set xs. length x = n" and "j < length xs"
  shows "length (xs ! 0) = length (xs ! j)"
proof -
  from assms obtain n where n: "\<forall>x \<in> set xs. length x = n"
    by blast
  from assms(2) have "0 < length xs"
    by linarith
  with assms(2) have "xs ! 0 \<in> set xs" "xs ! j \<in> set xs"
    by (simp_all only: nth_mem)
  with n show ?thesis
    by simp
qed

lemma first_frame_bad:
  assumes g: "get_input_data input = Inr (P, L, R, T)"
    and bad: "\<exists>npz \<in> set input. \<not> well_shaped npz"
  shows "length (P ! 0) \<noteq> 88 \<or> length (L ! 0) \<noteq> 15 \<or> length (R ! 0) \<noteq> 15"
proof -
  note lf = get_input_data_Inr(1) [OF g]
  note len = load_frames_Inr [OF lf]
  from bad obtain j where j: "j < length input" "\<not> well_shaped (input ! j)"
    by (auto simp: in_set_conv_nth)
  from len j(1) have "load_frame (input ! j) = Inr (P ! j, L ! j, R ! j, T ! j)"
    by simp
  from load_frame_bad_shape [OF this j(2)]
  have b: "length (P ! j) \<noteq> 88 \<or> length (L ! j) \<noteq> 15 \<or> length (R ! j) \<noteq> 15" .
  from len j(1) have jj: "j < length P" "j < length L" "j < length R"
    by simp_all
  have "length (P ! 0) = length (P ! j)" "length (L ! 0) = length (L ! j)"
    "length (R ! 0) = length (R ! j)"
    using uniform_nth [OF get_input_data_Inr(3) [OF g] jj(1)]
      uniform_nth [OF get_input_data_Inr(4) [OF g] jj(2)]
      uniform_nth [OF get_input_data_Inr(5) [OF g] jj(3)]
    by simp_all
  with b show ?thesis
    by simp
qed

lemma get_input_data_single:
  "get_input_data
     [\<lparr>global_orient = Rows [(0, 0, 0)], body_pose = Rows (replicate (Suc n) (0, 0, 0)),
       left_hand_pose = Rows (replicate 15 (0, 0, 1)),
       right_hand_pose = Rows (replicate 15 (0, 0, 0)), transl = t\<rparr>] =
   Inr ([concat (replicate (Suc (Suc n)) [1, 0, 0, 0])],
        [replicate 15 (to_quaternion (Rodrigues (0, 0, - 1)))],
        [replicate 15 (1, 0, 0, 0)], [t])"
proof -
  have r: "ToQuaternion (Rows (replicate (Suc n) (0, 0, 0))) =
             Inr (QRows (replicate (Suc n) (1, 0, 0, 0)))"
    "ToQuaternion (Rows [(0, 0, 0)]) = Inr (QRows [(1, 0, 0, 0)])"
    "ToQuaternion (Rows (replicate 15 (0, 0, 0))) = Inr (QRows (replicate 15 (1, 0, 0, 0)))"
    by (simp_all add: ToQuaternion_Rows convert_zero map_replicate
        del: replicate.simps replicate_Suc)
  have m0: "np_matmul (Rows (replicate 15 (0, 0, 0))) fix_coor = Rows (replicate 15 (0, 0, 0))"
    by (simp add: np_matmul_def vec_matmul_fix_coor map_replicate
        del: replicate.simps replicate_Suc)
  have m1: "np_matmul (Rows (replicate 15 (0, 0, 1))) fix_coor = Rows (replicate 15 (0, 0, - 1))"
    by (simp add: np_matmul_def vec_matmul_fix_coor map_replicate
        del: replicate.simps replicate_Suc)
  have l: "ToQuaternion (Rows (replicate 15 (0, 0, - 1))) =
             Inr (QRows (replicate 15 (to_quaternion (Rodrigues (0, 0, - 1)))))"
    by (simp add: ToQuaternion_Rows map_replicate del: replicate.simps replicate_Suc)
  have c: "concat (map quat_components ([(1, 0, 0, 0)] @ replicate (Suc n) (1, 0, 0, 0))) =
             concat (replicate (Suc (Suc n)) [1, 0, 0, 0])"
    by (simp add: map_replicate del: replicate.simps) simp
  have cc: "1 # 0 # 0 # 0 # concat (replicate (Suc n) [1, 0, 0, 0 :: real]) =
             concat (replicate (Suc (Suc n)) [1, 0, 0, 0])"
    by (simp only: replicate_Suc concat.simps append.simps)
  have lf: "load_frame \<lparr>global_orient = Rows [(0, 0, 0)],
       body_pose = Rows (replicate (Suc n) (0, 0, 0)),
       left_hand_pose = Rows (replicate 15 (0, 0, 1)),
       right_hand_pose = Rows (replicate 15 (0, 0, 0)), transl = t\<rparr> =
     Inr (concat (replicate (Suc (Suc n)) [1, 0, 0, 0]),
          replicate 15 (to_quaternion (Rodrigues (0, 0, - 1))),
          replicate 15 (1, 0, 0, 0), t)"
    unfolding load_frame_def
    by (simp add: r m0 m1 l c cc map_replicate del: replicate.simps replicate_Suc)
  show ?thesis
    unfolding get_input_data_def
    by (simp add: lf stack_arrays_def np_stack_def del: replicate.simps replicate_Suc)
qed

text \<open>
  Claim C6, as stated, fails on the code. For the single file \<open>short_frame\<close>, with 20 rows
  of body pose, \<^verbatim>\<open>get_input_data\<close> returns: the quaternions of all 21 body joints and of
  the 30 hand joints have been converted, and no error has been raised. The run fails
  later, with \<^verbatim>\<open>ValueError\<close>, at \<^verbatim>\<open>pose.reshape(22, 4)\<close> in the first call of
  \<^verbatim>\<open>process_pose\<close>, after the frame rate and the end frame of the scene have been set.
\<close>

theorem shape_mismatch_late:
  "get_input_data [short_frame] =
     Inr ([concat (replicate 21 [1, 0, 0, 0])],
          [replicate 15 (to_quaternion (Rodrigues (0, 0, - 1)))],
          [replicate 15 (1, 0, 0, 0)], [(0, 0, 0)]) \<and>
   process_poses [short_frame] (0, 0, 1) 30 30 True
     \<lparr>fps = 24, frame_end = 250, keyframes = []\<rparr> =
     Some (\<lparr>fps = 30, frame_end = 1, keyframes = []\<rparr>, Inl ValueError)"
proof -
  have g: "get_input_data [short_frame] =
     Inr ([concat (replicate 21 [1, 0, 0, 0])],
          [replicate 15 (to_quaternion (Rodrigues (0, 0, - 1)))],
          [replicate 15 (1, 0, 0, 0)], [(0, 0, 0)])"
    using get_input_data_single [of 19 "(0, 0, 0)"] by (simp add: short_frame_def)
  have bad: "length ([concat (replicate 21 [1, 0, 0, 0 :: real])] ! 0) \<noteq> 88 \<or>
      length ([replicate 15 (to_quaternion (Rodrigues (0, 0, - 1)))] ! 0) \<noteq> 15 \<or>
      length ([replicate 15 ((1, 0, 0, 0) :: quat)] ! 0) \<noteq> 15"
    by (simp add: length_concat sum_list_replicate del: replicate.simps replicate_Suc)
  have "process_poses [short_frame] (0, 0, 1) 30 30 True
     \<lparr>fps = 24, frame_end = 250, keyframes = []\<rparr> =
     Some (\<lparr>fps = 30, frame_end = 1, keyframes = []\<rparr>, Inl ValueError)"
    unfolding process_poses_Inr [OF g refl refl]
    by (simp add: process_loop_first_fails [OF _ _ _ _ bad] int_of_quotient_def
        setup_scene_def del: replicate.simps replicate_Suc)
  with g show ?thesis
    by (intro conjI)
qed

text \<open>
  Claim C6, amended. For every sequence that holds a file whose arrays disagree with the
  accepted shape (22 rows of global orientation and body pose together, 15 rows for each
  hand), the run ends in an exception and inserts no keyframe; at positive rates the
  exception is the \<^verbatim>\<open>ValueError\<close> of numpy.
\<close>

theorem shape_mismatch_fails:
  assumes "\<exists>npz \<in> set input. \<not> well_shaped npz"
  shows "\<exists>sc' e. process_poses input pelvis_position fps_source fps_target start_origin sc =
                  Some (sc', Inl e) \<and>
           keyframes sc' = keyframes sc \<and>
           (0 < fps_source \<and> 0 < fps_target \<longrightarrow> e = ValueError)"
proof (cases "get_input_data input")
  case (Inl e)
  then have "e = ValueError"
    by (rule get_input_data_Inl)
  with Inl have "process_poses input pelvis_position fps_source fps_target start_origin sc =
      Some (sc, Inl ValueError)"
    by (simp add: process_poses_def)
  then show ?thesis
    by blast
next
  case (Inr d)
  obtain P L R T where d: "d = (P, L, R, T)"
    by (cases d)
  note g = Inr [unfolded d]
  define t where "t = (if fps_target > fps_source then fps_source else fps_target)"
  define s where "s = int_of_quotient fps_source t"
  note unfold = process_poses_Inr [OF g t_def s_def]
  show ?thesis
  proof (cases "t = 0 \<or> s = 0")
    case True
    have "\<not> (0 < fps_source \<and> 0 < fps_target)"
    proof
      assume pos: "0 < fps_source \<and> 0 < fps_target"
      then have "t = min fps_target fps_source"
        unfolding t_def by (simp add: min_def)
      with pos True stride_positive(2,3,4) [of fps_source fps_target] show False
        unfolding s_def by auto
    qed
    moreover from True
    have "process_poses input pelvis_position fps_source fps_target start_origin sc =
        Some (setup_scene t sc, Inl ZeroDivisionError)"
      unfolding unfold by simp
    moreover have "keyframes (setup_scene t sc) = keyframes sc"
      by (simp add: setup_scene_def)
    ultimately show ?thesis
      by blast
  next
    case False
    let ?sc = "(setup_scene t sc)\<lparr>frame_end := int_of_quotient (int (length P)) s\<rparr>"
    note lf = get_input_data_Inr(1) [OF g]
    note len = load_frames_Inr [OF lf]
    from get_input_data_Inr(2) [OF g] len have l: "0 < length P" "length L = length P"
      "length R = length P" "length T = length P"
      by simp_all
    note bad = first_frame_bad [OF g assms]
    from False
    have "process_poses input pelvis_position fps_source fps_target start_origin sc =
        Some (?sc, Inl ValueError)"
      unfolding unfold by (simp add: process_loop_first_fails [OF l bad])
    moreover have "keyframes ?sc = keyframes sc"
      by (simp add: setup_scene_def)
    ultimately show ?thesis
      by blast
  qed
qed

lemma short_frame_bad: "\<not> well_shaped short_frame"
  by (simp add: well_shaped_def short_frame_def)

theorem shape_mismatch_fails_witness:
  "short_frame \<in> set [sample_frame (0, 0, 0), short_frame] \<and> \<not> well_shaped short_frame \<and>
   (0::int) < 30 \<and>
   (\<exists>sc'. process_poses [sample_frame (0, 0, 0), short_frame] (0, 0, 1) 30 30 True
            \<lparr>fps = 24, frame_end = 250, keyframes = []\<rparr> = Some (sc', Inl ValueError) \<and>
          keyframes sc' = [])"
proof -
  let ?input = "[sample_frame (0, 0, 0), short_frame]"
  let ?sc = "\<lparr>fps = 24, frame_end = 250, keyframes = []\<rparr>"
  have m: "short_frame \<in> set ?input"
    by simp
  with short_frame_bad have "\<exists>npz \<in> set ?input. \<not> well_shaped npz"
    by blast
  from shape_mismatch_fails [OF this, of "(0, 0, 1)" 30 30 True ?sc]
  have "\<exists>sc'. process_poses ?input (0, 0, 1) 30 30 True ?sc = Some (sc', Inl ValueError) \<and>
          keyframes sc' = []"
    by auto
  with m short_frame_bad show ?thesis
    by simp
qed

text \<open>
  Claim C8, amended. When the files load and the clamped target rate
  \<open>min fps_target fps_source\<close> is 0, or the stride \<open>int(fps_source / clamped rate)\<close> is 0,
  the run fails with \<^verbatim>\<open>ZeroDivisionError\<close> after the frame rate of the scene has been set
  and before the loop: no keyframe is inserted.
\<close>

theorem zero_stride_fails:
  assumes "get_input_data input = Inr d"
    and "min fps_target fps_source = 0 \<or>
         int_of_quotient fps_source (min fps_target fps_source) = 0"
  shows "process_poses input pelvis_position fps_source fps_target start_origin sc =
           Some (sc\<lparr>fps := min fps_target fps_source\<rparr>, Inl ZeroDivisionError)"
proof -
  obtain P L R T where d: "d = (P, L, R, T)"
    by (cases d)
  have t: "min fps_target fps_source =
      (if fps_target > fps_source then fps_source else fps_target)"
    by (simp add: min_def)
  from assms(2) show ?thesis
    unfolding process_poses_Inr [OF assms(1) [unfolded d] t refl]
    by (simp add: setup_scene_def)
qed

theorem zero_stride_fails_witness:
  "min 0 30 = (0::int) \<and>
   process_poses [sample_frame (0, 0, 0)] (0, 0, 1) 30 0 True
     \<lparr>fps = 24, frame_end = 250, keyframes = []\<rparr> =
     Some (\<lparr>fps = 0, frame_end = 250, keyframes = []\<rparr>, Inl ZeroDivisionError) \<and>
   int_of_quotient 10 (min (- 30) 10) = 0 \<and>
   process_poses [sample_frame (0, 0, 0)] (0, 0, 1) 10 (- 30) True
     \<lparr>fps = 24, frame_end = 250, keyframes = []\<rparr> =
     Some (\<lparr>fps = - 30, frame_end = 250, keyframes = []\<rparr>, Inl ZeroDivisionError)"
proof -
  let ?sc = "\<lparr>fps = 24, frame_end = 250, keyframes = []\<rparr>"
  have "[sample_frame (0, 0, 0)] \<noteq> []"
    and "\<forall>npz \<in> set [sample_frame (0, 0, 0)]. well_shaped npz"
    by (simp_all add: sample_frame_well_shaped)
  then obtain P L R T where g: "get_input_data [sample_frame (0, 0, 0)] = Inr (P, L, R, T)"
    using get_input_data_well_shaped by blast
  have a: "min 0 30 = (0::int) \<or> int_of_quotient 30 (min 0 30) = 0"
    by simp
  have q: "int_of_quotient 10 (min (- 30) 10) = 0"
    by (simp add: int_of_quotient_def)
  then have b: "min (- 30) 10 = (0::int) \<or> int_of_quotient 10 (min (- 30) 10) = 0"
    by (rule disjI2)
  from zero_stride_fails [OF g a, of "(0, 0, 1)" True ?sc]
    zero_stride_fails [OF g b, of "(0, 0, 1)" True ?sc] q
  show ?thesis
    by simp
qed

text \<open>
  Claim C8, as stated, fails on the code. With the non-positive rates
  \<open>fps_source = -30\<close> and \<open>fps_target = -10\<close> the target rate is clamped to \<open>-30\<close>, the stride
  is 1, and the run returns 2 with the keyframes of one frame inserted: no error is
  raised.
\<close>

theorem negative_rates_accepted:
  "process_poses [sample_frame (0, 0, 0)] (0, 0, 1) (- 30) (- 10) True
     \<lparr>fps = 24, frame_end = 250, keyframes = []\<rparr> =
   Some (\<lparr>fps = - 30, frame_end = 1, keyframes =
            frame_keyframes 1 (concat (replicate 22 [1, 0, 0, 0]))
              (replicate 15 (to_quaternion (Rodrigues (0, 0, - 1))))
              (replicate 15 (1, 0, 0, 0)) (0, 0, 0) (0, 0, 1)\<rparr>, Inr 2)"
proof -
  have g: "get_input_data [sample_frame (0, 0, 0)] =
     Inr ([concat (replicate 22 [1, 0, 0, 0])],
          [replicate 15 (to_quaternion (Rodrigues (0, 0, - 1)))],
          [replicate 15 (1, 0, 0, 0)], [(0, 0, 0)])"
    using get_input_data_single [of 20 "(0, 0, 0)"] by (simp add: sample_frame_def)
  have ws: "\<forall>npz \<in> set [sample_frame (0, 0, 0)]. well_shaped npz"
    by (simp add: sample_frame_well_shaped)
  have t: "(- 30 :: int) = (if (- 10 :: int) > - 30 then - 30 else - 10)" "(- 30 :: int) \<noteq> 0"
    by simp_all
  have s: "int_of_quotient (- 30) (- 30) = int 1" "0 < (1::nat)"
    by (simp_all add: int_of_quotient_def)
  have one: "[0..<Suc 0] = [0]"
    by simp
  show ?thesis
    unfolding process_poses_closed [OF g ws t s, of "(0, 0, 1)" True
        "\<lparr>fps = 24, frame_end = 250, keyframes = []\<rparr>"]
    by (simp add: one int_of_quotient_def captured_offset_def
        del: replicate.simps replicate_Suc upt.simps upt_Suc)
qed

subsection \<open>The returned counter\<close>

lemma process_loop_counter:
  assumes "process_loop poses lhposes rhposes trans_v start_origin pelvis_position
             sample_rate source_index frame offset sc = Some y"
  shows "\<forall>r. snd y = Inr r \<longrightarrow>
           frame \<le> r \<and>
           (\<exists>new. keyframes (fst y) = keyframes sc @ new \<and>
                  key_frame ` set new = {frame..<r} \<and>
                  int (length (locations new)) = r - frame)"
proof (rule process_loop.raw_induct [where P = "\<lambda>poses lhposes rhposes trans_v start_origin
      pelvis_position sample_rate source_index frame offset sc y.
      \<forall>r. snd y = Inr r \<longrightarrow>
           frame \<le> r \<and>
           (\<exists>new. keyframes (fst y) = keyframes sc @ new \<and>
                  key_frame ` set new = {frame..<r} \<and>
                  int (length (locations new)) = r - frame)",
      OF _ assms])
  fix loop poses lhposes rhposes trans_v start_origin pelvis_position
    sample_rate source_index frame offset sc y
  assume ih: "\<And>poses lhposes rhposes trans_v start_origin pelvis_position sample_rate
      source_index frame offset sc y.
      loop poses lhposes rhposes trans_v start_origin pelvis_position sample_rate
        source_index frame offset sc = Some y \<Longrightarrow>
      \<forall>r. snd y = Inr r \<longrightarrow>
           frame \<le> r \<and>
           (\<exists>new. keyframes (fst y) = keyframes sc @ new \<and>
                  key_frame ` set new = {frame..<r} \<and>
                  int (length (locations new)) = r - frame)"
    and body: "(if source_index < int (length poses)
      then case loop_body poses lhposes rhposes trans_v start_origin
                 pelvis_position source_index frame offset sc of
           Inl e \<Rightarrow> Some (sc, Inl e)
           | Inr (offset', sc') \<Rightarrow>
               loop poses lhposes rhposes trans_v start_origin
                pelvis_position sample_rate (source_index + sample_rate)
                (frame + 1) offset' sc'
      else Some (sc, Inr frame)) = Some y"
  show "\<forall>r. snd y = Inr r \<longrightarrow>
           frame \<le> r \<and>
           (\<exists>new. keyframes (fst y) = keyframes sc @ new \<and>
                  key_frame ` set new = {frame..<r} \<and>
                  int (length (locations new)) = r - frame)"
  proof (cases "source_index < int (length poses)")
    case False
    with body have "y = (sc, Inr frame)"
      by simp
    then show ?thesis
      by simp
  next
    case True
    show ?thesis
    proof (cases "loop_body poses lhposes rhposes trans_v start_origin pelvis_position
                    source_index frame offset sc")
      case (Inl e)
      with True body have "y = (sc, Inl e)"
        by simp
      then show ?thesis
        by simp
    next
      case (Inr p)
      obtain offset' sc' where p: "p = (offset', sc')"
        by (cases p)
      from loop_body_Inr [OF Inr [unfolded p]] obtain pose lh rh t
        where sc': "sc' = sc\<lparr>keyframes := keyframes sc @
            frame_keyframes frame pose lh rh t pelvis_position\<rparr>"
        by blast
      let ?fk = "frame_keyframes frame pose lh rh t pelvis_position"
      from True Inr p body
      have "loop poses lhposes rhposes trans_v start_origin pelvis_position sample_rate
              (source_index + sample_rate) (frame + 1) offset' sc' = Some y"
        by simp
      note step = ih [OF this]
      show ?thesis
      proof (intro allI impI)
        fix r assume r: "snd y = Inr r"
        with step obtain new where le: "frame + 1 \<le> r"
          and new: "keyframes (fst y) = keyframes sc' @ new"
            "key_frame ` set new = {frame + 1..<r}"
            "int (length (locations new)) = r - (frame + 1)"
          by blast
        from new(1) sc' have a: "keyframes (fst y) = keyframes sc @ (?fk @ new)"
          by simp
        have "key_frame ` set (?fk @ new) = {frame} \<union> {frame + 1..<r}"
          using new(2) key_frame_frame_keyframes [of frame pose lh rh t pelvis_position]
          by (simp add: image_Un)
        also from le have "\<dots> = {frame..<r}"
          by auto
        finally have b: "key_frame ` set (?fk @ new) = {frame..<r}" .
        from new(3) have c: "int (length (locations (?fk @ new))) = r - frame"
          by (simp add: locations_append locations_frame_keyframes)
        from le a b c show "frame \<le> r \<and>
           (\<exists>new. keyframes (fst y) = keyframes sc @ new \<and>
                  key_frame ` set new = {frame..<r} \<and>
                  int (length (locations new)) = r - frame)"
          by (intro conjI exI [of _ "?fk @ new"]) simp_all
      qed
    qed
  qed
qed

lemma process_poses_counter:
  assumes "process_poses input pelvis_position fps_source fps_target start_origin sc =
             Some (sc', Inr r)"
  shows "r = int (card (key_frame ` set (drop (length (keyframes sc)) (keyframes sc')))) + 1"
    and "r = int (length (locations (drop (length (keyframes sc)) (keyframes sc')))) + 1"
proof -
  obtain P L R T where g: "get_input_data input = Inr (P, L, R, T)"
    using assms by (cases "get_input_data input") (auto simp: process_poses_def)
  define t where "t = (if fps_target > fps_source then fps_source else fps_target)"
  define s where "s = int_of_quotient fps_source t"
  note unfold = process_poses_Inr [OF g t_def s_def]
  let ?sc = "(setup_scene t sc)\<lparr>frame_end := int_of_quotient (int (length P)) s\<rparr>"
  from assms have nz: "\<not> (t = 0 \<or> s = 0)"
    unfolding unfold by auto
  with assms
  have "process_loop P L R T start_origin pelvis_position s 0 1 (0, 0, 0) ?sc =
          Some (sc', Inr r)"
    unfolding unfold by simp
  from process_loop_counter [OF this] obtain new where le: "1 \<le> r"
    and new: "keyframes sc' = keyframes ?sc @ new" "key_frame ` set new = {1..<r}"
      "int (length (locations new)) = r - 1"
    by auto
  from new(1) have d: "drop (length (keyframes sc)) (keyframes sc') = new"
    by (simp add: setup_scene_def)
  from le have "card {1..<r} = nat (r - 1)"
    by simp
  with new(2) le show "r = int (card (key_frame ` set (drop (length (keyframes sc))
      (keyframes sc')))) + 1"
    unfolding d by simp
  from new(3) show "r = int (length (locations (drop (length (keyframes sc))
      (keyframes sc')))) + 1"
    unfolding d by simp
qed

text \<open>
  Claim C10. For a non-empty sequence of well-shaped files at positive rates
  \<^verbatim>\<open>process_poses\<close> returns a value, and whenever it returns a value, that value is the
  number of frames it has emitted plus one: the counter starts at 1 and is incremented
  after every emitted frame, the last included. The emitted frames are counted by their
  distinct frame numbers and, equally, by the location keyframes, of which every call of
  \<^verbatim>\<open>process_pose\<close> inserts one.
\<close>

theorem returned_frame_counter:
  "(0 < fps_source \<and> 0 < fps_target \<and> input \<noteq> [] \<and> list_all well_shaped input \<longrightarrow>
      (\<exists>sc' r. process_poses input pelvis_position fps_source fps_target start_origin sc =
                 Some (sc', Inr r))) \<and>
   (\<forall>sc' r. process_poses input pelvis_position fps_source fps_target start_origin sc =
              Some (sc', Inr r) \<longrightarrow>
      r = int (card (key_frame ` set (drop (length (keyframes sc)) (keyframes sc')))) + 1 \<and>
      r = int (length (locations (drop (length (keyframes sc)) (keyframes sc')))) + 1)"
proof (intro conjI allI impI)
  assume a: "0 < fps_source \<and> 0 < fps_target \<and> input \<noteq> [] \<and> list_all well_shaped input"
  then have ws: "\<forall>npz \<in> set input. well_shaped npz"
    by (simp add: list_all_iff)
  from a get_input_data_well_shaped [OF _ ws] obtain P L R T
    where g: "get_input_data input = Inr (P, L, R, T)"
    by blast
  from a have pos: "0 < fps_source" "0 < fps_target"
    by simp_all
  from process_poses_positive [OF pos g ws refl]
  show "\<exists>sc' r. process_poses input pelvis_position fps_source fps_target start_origin sc =
                 Some (sc', Inr r)"
    by blast
next
  fix sc' r
  assume "process_poses input pelvis_position fps_source fps_target start_origin sc =
            Some (sc', Inr r)"
  then show "r = int (card (key_frame ` set (drop (length (keyframes sc))
      (keyframes sc')))) + 1"
    and "r = int (length (locations (drop (length (keyframes sc)) (keyframes sc')))) + 1"
    by (rule process_poses_counter)+
qed

theorem returned_frame_counter_witness:
  "(0::int) < 30 \<and> (0::int) < 10 \<and> replicate 100 (sample_frame (0, 0, 0)) \<noteq> [] \<and>
   list_all well_shaped (replicate 100 (sample_frame (0, 0, 0))) \<and>
   (\<exists>sc'. process_poses (replicate 100 (sample_frame (0, 0, 0))) (0, 0, 1) 30 10 True
            \<lparr>fps = 24, frame_end = 250, keyframes = []\<rparr> = Some (sc', Inr 35) \<and>
          card (key_frame ` set (keyframes sc')) = 34 \<and>
          length (locations (keyframes sc')) = 34)"
proof -
  let ?input = "replicate 100 (sample_frame (0, 0, 0))"
  let ?sc = "\<lparr>fps = 24, frame_end = 250, keyframes = []\<rparr>"
  have pos: "(0::int) < 30" "(0::int) < 10"
    by simp_all
  have ne: "?input \<noteq> []"
    by simp
  have ws: "\<forall>npz \<in> set ?input. well_shaped npz"
    by (simp add: sample_frame_well_shaped)
  then have wl: "list_all well_shaped ?input"
    unfolding list_all_iff .
  note inst = returned_frame_counter [of 30 10 ?input "(0, 0, 1)" True ?sc]
  from inst pos ne wl obtain sc' r
    where run: "process_poses ?input (0, 0, 1) 30 10 True ?sc = Some (sc', Inr r)"
    by blast
  with inst have c: "r = int (card (key_frame ` set (keyframes sc'))) + 1"
    and l: "r = int (length (locations (keyframes sc'))) + 1"
    by auto
  from get_input_data_well_shaped [OF ne ws] obtain P L R T
    where g: "get_input_data ?input = Inr (P, L, R, T)"
    by blast
  have "\<exists>sc''. process_poses ?input (0, 0, 1) 30 10 True ?sc = Some (sc'', Inr 35)"
    using process_poses_positive [OF pos g ws refl, of "(0, 0, 1)" True ?sc] by simp
  with run have "r = 35"
    by auto
  with run c l pos ne wl show ?thesis
    by auto
qed

end
